theory Spec2Isabelle
  imports Main "HOL-Library.Word"
begin

unbundle bit_operations_syntax

section \<open>Python values used by the bus protocol stack\<close>

text \<open>
  A Python \<open>bytes\<close> object is a list of 8-bit words, a \<open>str\<close> is a \<open>string\<close>, and the
  integers of the program are the unbounded integers of HOL. The program needs Python
  3.11 or later (it calls \<open>int.from_bytes\<close> without a byte order), and that is the
  language modelled here.
\<close>

type_synonym byte = "8 word"
type_synonym bytes = "byte list"

text \<open>
  Every exception the protocol stack raises is a \<open>ValueError\<close> (or one of its subclasses
  \<open>UnicodeDecodeError\<close>, \<open>UnicodeEncodeError\<close>); the payload records which statement
  raised it. The frame and schema checks accumulate one entry per failed check, as the
  source accumulates lines of its \<open>error\<close> string.
\<close>

datatype frame_check =
    InvalidFrameLength nat
  | InvalidStartMarker bytes
  | InvalidEndMarker bytes
  | StartMarkerInPayload
  | EndMarkerInPayload
  | InvalidPayloadValue byte
  | InvalidChecksum
  | InvalidParity

datatype schema_check =
    InvalidMessageLength nat
  | InvalidState int
  | NoResponse int

datatype reason =
    NonHexadecimal
  | NotAscii
  | InvalidFrame "frame_check list"
  | InvalidMessage "schema_check list"

datatype exn = ValueError reason | AttributeError

definition and_then :: "exn + 'a \<Rightarrow> ('a \<Rightarrow> exn + 'b) \<Rightarrow> exn + 'b" where
  "and_then r f = (case r of Inl e \<Rightarrow> Inl e | Inr x \<Rightarrow> f x)"

subsection \<open>Slices\<close>

text \<open>
  Python slicing \<open>xs[i:j]\<close>, \<open>xs[i:]\<close> and \<open>xs[:j]\<close>: a negative bound counts from the
  end, and every bound is clamped to the range \<open>0 .. len(xs)\<close>.
\<close>

definition norm_index :: "nat \<Rightarrow> int \<Rightarrow> nat" where
  "norm_index n i = (if i < 0 then nat (max 0 (int n + i)) else min n (nat i))"

definition py_slice :: "int \<Rightarrow> int \<Rightarrow> 'a list \<Rightarrow> 'a list" where
  "py_slice i j xs =
     (let a = norm_index (length xs) i; b = norm_index (length xs) j
      in take (b - a) (drop a xs))"

definition py_slice_from :: "int \<Rightarrow> 'a list \<Rightarrow> 'a list" where
  "py_slice_from i xs = drop (norm_index (length xs) i) xs"

definition py_slice_to :: "int \<Rightarrow> 'a list \<Rightarrow> 'a list" where
  "py_slice_to j xs = take (norm_index (length xs) j) xs"

subsection \<open>Hexadecimal formatting and ASCII\<close>

definition hex_digit :: "int \<Rightarrow> char" where
  "hex_digit d = ''0123456789ABCDEF'' ! nat (d mod 16)"

text \<open>The upper-case hexadecimal digits of a non-negative integer.\<close>

function hex_str :: "int \<Rightarrow> string" where
  "hex_str n = (if n < 16 then [hex_digit n] else hex_str (n div 16) @ [hex_digit (n mod 16)])"
  by pat_completeness auto
termination
  by (relation "measure nat") auto

declare hex_str.simps [simp del]

text \<open>
  The format specification \<open>{n:0wX}\<close> for an integer \<open>n\<close>: at least \<open>w\<close> characters,
  zeros after the sign of a negative number.
\<close>

definition zero_pad :: "nat \<Rightarrow> string \<Rightarrow> string" where
  "zero_pad w s = replicate (w - length s) (CHR ''0'') @ s"

definition format_X :: "nat \<Rightarrow> int \<Rightarrow> string" where
  "format_X w n =
     (if n < 0 then CHR ''-'' # zero_pad (w - 1) (hex_str (- n)) else zero_pad w (hex_str n))"

definition byte_of_char :: "char \<Rightarrow> byte" where
  "byte_of_char c = word_of_nat (of_char c)"

definition char_of_byte :: "byte \<Rightarrow> char" where
  "char_of_byte b = char_of (unat b)"

text \<open>\<open>s.encode("ascii")\<close> and \<open>b.decode("ascii")\<close>.\<close>

definition encode_ascii :: "string \<Rightarrow> exn + bytes" where
  "encode_ascii s =
     (if list_all (\<lambda>c. (of_char c :: nat) < 128) s then Inr (map byte_of_char s)
      else Inl (ValueError NotAscii))"

definition decode_ascii :: "bytes \<Rightarrow> exn + string" where
  "decode_ascii bs =
     (if list_all (\<lambda>b. b < 0x80) bs then Inr (map char_of_byte bs)
      else Inl (ValueError NotAscii))"

section \<open>Frame codec (frame.py)\<close>

text \<open>
  \<open>Frame(data)\<close> dispatches on the type of \<open>data\<close>: \<open>Frame_from_bytes\<close> is the
  constructor on \<open>bytes\<close>, \<open>Frame_from_packet\<close> (below, with the packets) the one on a
  \<open>Packet\<close>.
\<close>

record frame =
  payload :: bytes

text \<open>
  \<open>Frame._calculate_checksum\<close> and \<open>Frame._calculate_parity\<close>. The two formatted
  characters are hexadecimal digits, so their ASCII encoding cannot fail.
\<close>

definition Frame_calculate_checksum :: "bytes \<Rightarrow> bytes" where
  "Frame_calculate_checksum pl =
     (let checksum = sum_list (map uint pl) mod 256
      in map byte_of_char (format_X 2 checksum))"

definition Frame_calculate_parity :: "bytes \<Rightarrow> bytes" where
  "Frame_calculate_parity pl =
     (let parity = fold (\<lambda>payload_byte parity. parity XOR payload_byte) pl (0 :: byte)
      in map byte_of_char (format_X 2 (uint parity)))"

definition payload_value_ok :: "byte \<Rightarrow> bool" where
  "payload_value_ok b = (b = 0x00 \<or> (0x30 \<le> b \<and> b \<le> 0x39) \<or> (0x41 \<le> b \<and> b \<le> 0x5A))"

definition Frame_validate_errors :: "bytes \<Rightarrow> frame_check list" where
  "Frame_validate_errors fr =
     (let len = length fr;
          start = py_slice 0 1 fr;
          end_marker = py_slice_from (- 2) fr;
          pl = py_slice 1 (- 6) fr;
          checksum = py_slice (- 6) (- 4) fr;
          parity = py_slice (- 4) (- 2) fr
      in (if len < 13 then [InvalidFrameLength len] else [])
       @ (if start \<noteq> [0x02] then [InvalidStartMarker start] else [])
       @ (if end_marker \<noteq> [0x03, 0xFF] then [InvalidEndMarker end_marker] else [])
       @ (if 0x02 \<in> set pl then [StartMarkerInPayload] else [])
       @ (if 0x03 \<in> set pl then [EndMarkerInPayload] else [])
       @ concat (map (\<lambda>b. if \<not> payload_value_ok b then [InvalidPayloadValue b] else []) pl)
       @ (if \<not> checksum = Frame_calculate_checksum pl then [InvalidChecksum] else [])
       @ (if \<not> parity = Frame_calculate_parity pl then [InvalidParity] else []))"

definition Frame_validate :: "bytes \<Rightarrow> exn + bool" where
  "Frame_validate fr =
     (let error = Frame_validate_errors fr
      in if error \<noteq> [] then Inl (ValueError (InvalidFrame error)) else Inr True)"

definition Frame_from_bytes :: "bytes \<Rightarrow> exn + frame" where
  "Frame_from_bytes data =
     and_then (Frame_validate data) (\<lambda>_. Inr \<lparr>payload = py_slice 1 (- 6) data\<rparr>)"

definition Frame_get_bytes :: "frame \<Rightarrow> exn + bytes" where
  "Frame_get_bytes f =
     (let data = [0x02] @ payload f @ Frame_calculate_checksum (payload f)
                 @ Frame_calculate_parity (payload f) @ [0x03, 0xFF]
      in and_then (Frame_validate data) (\<lambda>_. Inr data))"

section \<open>Packet codec and message dictionary (packet.py)\<close>

subsection \<open>Parsing hexadecimal fields\<close>

text \<open>
  \<open>bytes.fromhex\<close>: ASCII whitespace is skipped between bytes, every byte is two
  hexadecimal digits of either case, anything else raises \<open>ValueError\<close>.
  \<open>int.from_bytes\<close> reads the bytes big-endian.
\<close>

definition py_isspace :: "char \<Rightarrow> bool" where
  "py_isspace c = (c = CHR 0x20 \<or> c = CHR 0x09 \<or> c = CHR 0x0A \<or> c = CHR 0x0B
                   \<or> c = CHR 0x0C \<or> c = CHR 0x0D)"

definition digit_value :: "char \<Rightarrow> int option" where
  "digit_value c =
     (let k = (of_char c :: int) in
      if 0x30 \<le> k \<and> k \<le> 0x39 then Some (k - 0x30)
      else if 0x41 \<le> k \<and> k \<le> 0x46 then Some (k - 0x41 + 10)
      else if 0x61 \<le> k \<and> k \<le> 0x66 then Some (k - 0x61 + 10)
      else None)"

fun bytes_fromhex :: "string \<Rightarrow> exn + bytes" where
  "bytes_fromhex [] = Inr []"
| "bytes_fromhex [c] = (if py_isspace c then Inr [] else Inl (ValueError NonHexadecimal))"
| "bytes_fromhex (c # d # cs) =
     (if py_isspace c then bytes_fromhex (d # cs)
      else (case (digit_value c, digit_value d) of
              (Some hi, Some lo) \<Rightarrow>
                 (case bytes_fromhex cs of
                    Inl e \<Rightarrow> Inl e
                  | Inr bs \<Rightarrow> Inr (word_of_int (hi * 16 + lo) # bs))
            | _ \<Rightarrow> Inl (ValueError NonHexadecimal)))"

definition int_from_bytes :: "bytes \<Rightarrow> int" where
  "int_from_bytes bs = fold (\<lambda>b acc. acc * 256 + uint b) bs 0"

definition hex_int :: "string \<Rightarrow> exn + int" where
  "hex_int s = and_then (bytes_fromhex s) (\<lambda>bs. Inr (int_from_bytes bs))"

text \<open>The fields \<open>dat[i:j]\<close> parsed one after the other; the first failure raises.\<close>

fun hex_fields :: "string \<Rightarrow> (int \<times> int) list \<Rightarrow> exn + int list" where
  "hex_fields d [] = Inr []"
| "hex_fields d ((i, j) # fs) =
     (case hex_int (py_slice i j d) of
        Inl e \<Rightarrow> Inl e
      | Inr v \<Rightarrow> (case hex_fields d fs of Inl e \<Rightarrow> Inl e | Inr vs \<Rightarrow> Inr (v # vs)))"

subsection \<open>Packets\<close>

definition ADDR_NEW :: int where "ADDR_NEW = 0x00"
definition ADDR_CHARGER :: int where "ADDR_CHARGER = 0x01"
definition ADDR_CP :: int where "ADDR_CP = 0x80"
definition ADDR_BROADCAST :: int where "ADDR_BROADCAST = 0xBC"
definition ADDR_CHARGESTATION :: int where "ADDR_CHARGESTATION = 0xFD"

record packet =
  dst :: int
  src :: int
  cmd :: int
  dat :: string

definition length_ne :: "nat \<Rightarrow> nat \<Rightarrow> schema_check list" where
  "length_ne len expected = (if len \<noteq> expected then [InvalidMessageLength len] else [])"

definition checked :: "schema_check list \<Rightarrow> string \<Rightarrow> (int \<times> int) list \<Rightarrow> exn + schema_check list" where
  "checked error d fs = and_then (hex_fields d fs) (\<lambda>_. Inr error)"

text \<open>
  The checks of \<open>Packet._print\<close>: for each opcode the length checks appended to
  \<open>error\<close> and the fields parsed with \<open>bytes.fromhex\<close>, in the order of the source. The
  text that is only printed is left out. Opcodes whose branch neither checks a length nor
  parses a field (0x2A, 0x36, 0x37, 0x38, 0x41, 0x6C, 0xE1, 0xE3, 0xE4, 0xE6, 0xEB, 0xEC,
  0xED, 0xF0 to 0xFB, 0xFD) and opcodes with no branch at all add nothing.
\<close>

definition Packet_checks :: "packet \<Rightarrow> exn + schema_check list" where
  "Packet_checks p =
     (let d = dat p; len = length d; c = cmd p in
      and_then (hex_int (py_slice 0 4 d)) (\<lambda>foo.
      if c = 0x11 then
        (if dst p = ADDR_CP then Inr (length_ne len 15) else Inr (length_ne len 11))
      else if c = 0x13 then
        (if src p = ADDR_CP then Inr (length_ne len 0)
         else and_then (hex_int (py_slice 0 4 d)) (\<lambda>state.
           let error = (if len < 4 then [InvalidMessageLength len] else []) in
           if state = 0xAA00 then
             checked (error @ length_ne len 64) d [(4, 6), (22, 24), (56, 60)]
           else if state = 0x0055 then Inr (error @ length_ne len 4)
           else Inr (error @ [InvalidState state])))
      else if c = 0x18 then
        (if src p = ADDR_CP then checked (length_ne len 2) d [(0, 2)] else Inr [NoResponse c])
      else if c = 0x1B then
        (if src p = ADDR_CP then Inr (length_ne len 10) else Inr [NoResponse c])
      else if c = 0x1C then
        (if src p = ADDR_CP then checked (length_ne len 2) d [(0, 2)] else Inr [NoResponse c])
      else if c = 0x1E then
        (if src p = ADDR_CP then Inr (length_ne len 0) else Inr [NoResponse c])
      else if c = 0x21 then
        (if dst p = ADDR_CP then Inr (length_ne len 0) else Inr (length_ne len 0))
      else if c = 0x22 then
        checked (if dst p = ADDR_CP then length_ne len 26 else length_ne len 30) d
          [(0, 2), (2, 4)]
      else if c = 0x23 then
        (if dst p = ADDR_CP then checked (length_ne len 32) d [(0, 2), (24, 32)]
         else checked (length_ne len 18) d [(2, 10), (10, 18)])
      else if c = 0x24 then
        (if dst p = ADDR_CP then
           checked (length_ne len 50) d [(0, 2), (32, 40), (42, 50), (24, 32)]
         else Inr (length_ne len 2))
      else if c = 0x26 then
        (if dst p = ADDR_CP then
           checked (length_ne len 132) d
             [(0, 2), (6, 8), (8, 10), (10, 12), (12, 14), (18, 26), (30, 32), (52, 56),
              (58, 66), (68, 72), (72, 76), (76, 80), (80, 84), (84, 88), (88, 92),
              (92, 96), (96, 100), (100, 104), (104, 108), (124, 128), (128, 132)]
         else checked (length_ne len 16) d [(0, 8), (8, 16)])
      else if c = 0x31 then
        (if src p = ADDR_CP then checked (length_ne len 24) d [(0, 2)]
         else checked (length_ne len 2) d [(0, 2)])
      else if c = 0x32 then
        (if src p = ADDR_CP then checked (length_ne len 8) d [(0, 8)]
         else checked (length_ne len 2) d [(0, 2)])
      else if c = 0x33 then
        (if src p = ADDR_CP then Inr (length_ne len 0)
         else checked (if len \<noteq> 74 \<and> len \<noteq> 78 then [InvalidMessageLength len] else []) d
                [(20, 24), (30, 32), (36, 38), (54, 56), (66, 68)])
      else if c = 0x34 then
        (if src p = ADDR_CP then
           checked (length_ne len 86) d [(8, 10), (16, 18), (38, 40), (58, 66), (74, 76)]
         else Inr (length_ne len 4))
      else if c = 0x35 then
        (if src p = ADDR_CP then Inr [] else Inr [NoResponse c])
      else if c = 0x42 then
        (if src p = ADDR_CP then Inr (length_ne len 7) else Inr (length_ne len 7))
      else if c = 0x43 then
        (if src p = ADDR_CP then Inr (length_ne len 0) else Inr (length_ne len 18))
      else if c = 0x65 then
        (if src p = ADDR_CP then checked (length_ne len 4) d [(0, 4)] else Inr [NoResponse c])
      else if c = 0x66 then
        (if dst p = ADDR_CP then
           checked (length_ne len 44) d
             [(0, 4), (4, 8), (8, 12), (12, 16), (16, 20), (20, 24), (24, 28), (28, 32),
              (32, 36), (36, 44)]
         else Inr (length_ne len 0))
      else if c = 0x6A then
        (if dst p = ADDR_CP then checked (length_ne len 4) d [(0, 2)]
         else checked (length_ne len 4) d [(0, 4)])
      else if c = 0x6B then
        (if src p = ADDR_CP then
           checked (length_ne len 18) d [(2, 6), (6, 10), (10, 14), (14, 18)]
         else Inr (length_ne len 0))
      else Inr []))"

text \<open>\<open>Packet._print\<close> ends with \<open>if error: raise ValueError(error)\<close>.\<close>

definition Packet_print :: "packet \<Rightarrow> exn + unit" where
  "Packet_print p =
     and_then (Packet_checks p) (\<lambda>error.
       if error \<noteq> [] then Inl (ValueError (InvalidMessage error)) else Inr ())"

definition Packet_from_payload :: "bytes \<Rightarrow> exn + packet" where
  "Packet_from_payload pl =
     and_then (decode_ascii pl) (\<lambda>data.
     and_then (hex_int (py_slice 0 2 data)) (\<lambda>d.
     and_then (hex_int (py_slice 2 4 data)) (\<lambda>s.
     and_then (hex_int (py_slice 4 6 data)) (\<lambda>c.
       let p = \<lparr>dst = d, src = s, cmd = c, dat = py_slice_from 6 data\<rparr>
       in and_then (Packet_print p) (\<lambda>_. Inr p)))))"

definition Packet_get_payload :: "packet \<Rightarrow> exn + bytes" where
  "Packet_get_payload p =
     and_then (encode_ascii (format_X 2 (dst p) @ format_X 2 (src p) @ format_X 2 (cmd p) @ dat p))
       (\<lambda>pl. and_then (Packet_print p) (\<lambda>_. Inr pl))"

definition Frame_from_packet :: "packet \<Rightarrow> exn + frame" where
  "Frame_from_packet p = and_then (Packet_get_payload p) (\<lambda>pl. Inr \<lparr>payload = pl\<rparr>)"

definition Frame_get_packet :: "frame \<Rightarrow> exn + packet" where
  "Frame_get_packet f = Packet_from_payload (payload f)"

section \<open>Configuration (config.py)\<close>

record config =
  serial_device :: string
  allowed_cards :: "string list"

definition config_py :: config where
  "config_py = \<lparr>serial_device = ''/dev/ttyUSB0'',
                 allowed_cards = [''04BA2A2ADA1790'', ''0497147A5B1994'']\<rparr>"

section \<open>ChargePoint actor (manager.py)\<close>

text \<open>
  Instants are integers, the microseconds since 2000-01-01 00:00:00; a
  \<open>timedelta(seconds = k)\<close> is \<open>k * 1000000\<close>. The clock is an input of the program:
  \<open>clk k\<close> is what the \<open>k\<close>-th call of \<open>datetime.datetime.now()\<close> made by the actor
  returns, and the actor state counts the calls made so far. A clock that stands still
  during a call is \<open>\<lambda>_. now\<close>.
\<close>

type_synonym clock = "nat \<Rightarrow> int"

record cp =
  outbox :: "packet list"
  charger_state :: int
  last_message :: packet
  last_message_timestamp :: int
  check_message_response :: bool
  clock_reads :: nat

definition datetime_now :: "clock \<Rightarrow> cp \<Rightarrow> int \<times> cp" where
  "datetime_now clk s = (clk (clock_reads s), s\<lparr>clock_reads := clock_reads s + 1\<rparr>)"

text \<open>
  \<open>CP._send\<close>. The outbox is a deque whose left end is the head of the list:
  \<open>appendleft\<close> is \<open>#\<close>.
\<close>

definition CP_send :: "clock \<Rightarrow> packet \<Rightarrow> bool \<Rightarrow> cp \<Rightarrow> cp" where
  "CP_send clk p check_response s =
     (let s1 = (if check_response then s\<lparr>check_message_response := True, last_message := p\<rparr>
                else s);
          (now, s2) = datetime_now clk s1
      in s2\<lparr>last_message_timestamp := now, outbox := p # outbox s2\<rparr>)"

text \<open>
  \<open>CP._timestamp\<close>: the whole seconds since 2000-01-01, rounded towards zero, as
  \<open>{t:08X}\<close>. (The source goes through the float \<open>total_seconds()\<close>, which gives the same
  whole seconds for instants within two centuries of 2000 and may round differently
  beyond; no statement below reads the text of the timestamp.)
\<close>

definition CP_timestamp :: "clock \<Rightarrow> cp \<Rightarrow> string \<times> cp" where
  "CP_timestamp clk s =
     (let (now, s1) = datetime_now clk s;
          t = (if now < 0 then - ((- now) div 1000000) else now div 1000000)
      in (format_X 8 t, s1))"

definition CP_init :: "clock \<Rightarrow> packet list \<Rightarrow> cp" where
  "CP_init clk ob =
     (let request = \<lparr>dst = ADDR_BROADCAST, src = ADDR_CP, cmd = 0x1E, dat = []\<rparr>;
          s = \<lparr>outbox = ob, charger_state = 0, last_message = request,
               last_message_timestamp = clk 0, check_message_response = False,
               clock_reads = 1\<rparr>
      in CP_send clk request False s)"

definition CP_disable_response_check :: "cp \<Rightarrow> cp" where
  "CP_disable_response_check s = s\<lparr>check_message_response := False\<rparr>"

text \<open>The format specification \<open>{s:0w}\<close> for a string: padded on the right with \<open>0\<close>.\<close>

definition format_str0 :: "nat \<Rightarrow> string \<Rightarrow> string" where
  "format_str0 w s = s @ replicate (w - length s) (CHR ''0'')"

definition CP_respond :: "config \<Rightarrow> clock \<Rightarrow> packet \<Rightarrow> cp \<Rightarrow> exn + cp" where
  "CP_respond cfg clk message s =
     (if dst message \<noteq> ADDR_BROADCAST \<and> dst message \<noteq> ADDR_CP then Inr s
      else if cmd message = 0x11 then
        (let serial = py_slice 0 7 (dat message);
             response = \<lparr>dst = src message, src = ADDR_CP, cmd = cmd message,
                         dat = serial @ format_X 2 ADDR_CHARGER @ ''03''\<rparr>
         in Inr ((CP_send clk response False s)\<lparr>charger_state := 1\<rparr>))
      else if cmd message = 0x13 then
        Inr (CP_send clk \<lparr>dst = src message, src = ADDR_CP, cmd = 0x33, dat = []\<rparr> False s)
      else if cmd message = 0x21 then
        Inr (CP_send clk \<lparr>dst = src message, src = ADDR_CP, cmd = cmd message, dat = []\<rparr>
               False s)
      else if cmd message = 0x22 then
        and_then (hex_int (py_slice 2 4 (dat message))) (\<lambda>card_number_length.
          let card_number = py_slice 4 (4 + card_number_length) (dat message);
              status = (if card_number = ''000000AS'' then ''01''
                        else if card_number \<in> set (allowed_cards cfg) then ''01''
                        else ''12'');
              response = \<lparr>dst = src message, src = ADDR_CP, cmd = cmd message,
                          dat = status @ format_X 2 card_number_length
                                @ format_str0 22 card_number @ ''FFFF''\<rparr>
          in Inr (CP_send clk response False s))
      else if cmd message = 0x23 then
        (let session = 0;
             (ts, s1) = CP_timestamp clk s;
             response = \<lparr>dst = src message, src = ADDR_CP, cmd = cmd message,
                         dat = ''01'' @ format_X 8 session @ ts\<rparr>
         in Inr (CP_send clk response False s1))
      else if cmd message = 0x24 then
        Inr (CP_send clk \<lparr>dst = src message, src = ADDR_CP, cmd = cmd message, dat = ''01''\<rparr>
               False s)
      else if cmd message = 0x26 then
        (let session = 0;
             (ts, s1) = CP_timestamp clk s;
             response = \<lparr>dst = src message, src = ADDR_CP, cmd = cmd message,
                         dat = format_X 8 session @ ts\<rparr>
         in Inr (CP_send clk response False s1))
      else if cmd message = 0x31 then Inr (CP_disable_response_check s)
      else if cmd message = 0x32 then Inr (CP_disable_response_check s)
      else if cmd message = 0x33 then Inr (CP_disable_response_check s)
      else if cmd message = 0x34 then Inr (CP_disable_response_check s)
      else if cmd message = 0x36 then Inr s
      else if cmd message = 0x37 then Inr s
      else if cmd message = 0x38 then Inr s
      else if cmd message = 0x41 then Inr s
      else if cmd message = 0x42 then Inr s
      else if cmd message = 0x43 then Inr s
      else if cmd message = 0x66 then
        Inr (CP_send clk \<lparr>dst = src message, src = ADDR_CP, cmd = cmd message, dat = []\<rparr>
               False s)
      else if cmd message = 0x6A then
        (let response = \<lparr>dst = src message, src = ADDR_CP, cmd = cmd message, dat = ''AA00''\<rparr>;
             s1 = CP_send clk response False s;
             state = py_slice 0 2 (dat message)
         in if state = ''A7'' then
              (let current_min = ''003C''; current1 = ''003C''; current2 = ''003C'';
                   current3 = ''003C'';
                   request = \<lparr>dst = src message, src = ADDR_CP, cmd = 0x6B,
                              dat = ''01'' @ current_min @ current1 @ current2 @ current3\<rparr>
               in Inr (CP_send clk request True s1))
            else if state = ''81'' then
              (let current_min = ''003C''; current1 = ''00A0''; current2 = ''00A0'';
                   current3 = ''00A0'';
                   request = \<lparr>dst = src message, src = ADDR_CP, cmd = 0x6B,
                              dat = ''01'' @ current_min @ current1 @ current2 @ current3\<rparr>
               in Inr (CP_send clk request True s1))
            else Inr s1)
      else if cmd message = 0x6B then Inr (CP_disable_response_check s)
      else if cmd message = 0x6C then Inr s
      else Inr s)"

definition CP_check_response :: "clock \<Rightarrow> cp \<Rightarrow> cp" where
  "CP_check_response clk s =
     (let (now, s1) = datetime_now clk s
      in if last_message_timestamp s1 + 2 * 1000000 > now then s1
         else CP_send clk (last_message s1) True s1)"

definition CP_configure_charger :: "clock \<Rightarrow> cp \<Rightarrow> cp" where
  "CP_configure_charger clk s =
     (let (now, s1) = datetime_now clk s
      in if last_message_timestamp s1 + 5 * 1000000 > now then s1
         else if charger_state s1 = 1 then
           (let heartbeat_interval = ''0000003C''; led_enable = ''00'';
                request = \<lparr>dst = ADDR_CHARGER, src = ADDR_CP, cmd = 0x1B,
                           dat = heartbeat_interval @ led_enable\<rparr>
            in (CP_send clk request False s1)\<lparr>charger_state := 2\<rparr>)
         else if charger_state s1 = 2 then
           (let mask = ''FFFFFFFF''; led_brightness = ''1E''; meter_type = ''01'';
                auto_start = ''01''; meter_update_interval = ''0000003C'';
                remote_start = ''00'';
                request = \<lparr>dst = ADDR_CHARGER, src = ADDR_CP, cmd = 0x34,
                           dat = mask @ led_brightness @ ''030000'' @ meter_type
                                 @ ''01000100000000000000'' @ auto_start
                                 @ ''000000003C00000384'' @ meter_update_interval
                                 @ ''01000000'' @ remote_start @ ''03E8010000''\<rparr>
            in (CP_send clk request True s1)\<lparr>charger_state := 3\<rparr>)
         else if charger_state s1 = 3 then s1\<lparr>charger_state := 0\<rparr>
         else s1)"

definition CP_timers :: "clock \<Rightarrow> cp \<Rightarrow> cp" where
  "CP_timers clk s =
     (let s1 = (if check_message_response s then CP_check_response clk s else s)
      in if charger_state s1 > 0 then CP_configure_charger clk s1 else s1)"

section \<open>I/O loop (main.py)\<close>

text \<open>
  The globals of \<open>main.py\<close>: \<open>HANDLE\<close> is \<open>None\<close> or the serial port, modelled by the
  chunks written to it so far; \<open>CB_MANAGER\<close> is the actor, whose outbox is the global
  \<open>OUTBOX\<close> (the same deque object). Printing and the capture file are not modelled.
\<close>

record world =
  HANDLE :: "bytes list option"
  MONITOR :: bool
  CB_MANAGER :: cp

text \<open>\<open>frame.Frame(p).get_bytes()\<close>: the bytes of the frame that carries a packet.\<close>

definition wire_bytes :: "packet \<Rightarrow> exn + bytes" where
  "wire_bytes p = and_then (Frame_from_packet p) Frame_get_bytes"

definition send :: "packet \<Rightarrow> world \<Rightarrow> exn + world" where
  "send p w =
     and_then (wire_bytes p) (\<lambda>data.
       case HANDLE w of
         None \<Rightarrow> Inl AttributeError
       | Some written \<Rightarrow> Inr (w\<lparr>HANDLE := Some (written @ [data])\<rparr>))"

text \<open>
  The loop \<open>while OUTBOX: p = OUTBOX.pop(); send(p)\<close>, which \<open>find_frames\<close> runs after
  \<open>respond\<close> and \<open>read_from_serial\<close> after \<open>timers\<close>. \<open>pop\<close> takes the right end of the
  deque, the last element of the list. An exception of \<open>send\<close> leaves the loop.
\<close>

function drain_outbox :: "world \<Rightarrow> world \<times> exn option" where
  "drain_outbox w =
     (if outbox (CB_MANAGER w) = [] then (w, None)
      else
        (let response = last (outbox (CB_MANAGER w));
             w1 = w\<lparr>CB_MANAGER := (CB_MANAGER w)\<lparr>outbox := butlast (outbox (CB_MANAGER w))\<rparr>\<rparr>
         in case send response w1 of
              Inl e \<Rightarrow> (w1, Some e)
            | Inr w2 \<Rightarrow> drain_outbox w2))"
  by pat_completeness auto
termination
proof (relation "measure (\<lambda>w. length (outbox (CB_MANAGER w)))")
  show "wf (measure (\<lambda>w. length (outbox (CB_MANAGER w))))" by simp
next
  fix w :: world and response w1 w2
  assume ne: "outbox (CB_MANAGER w) \<noteq> []"
    and w1: "w1 = w\<lparr>CB_MANAGER := (CB_MANAGER w)\<lparr>outbox := butlast (outbox (CB_MANAGER w))\<rparr>\<rparr>"
    and snd: "send response w1 = Inr w2"
  from snd have "CB_MANAGER w2 = CB_MANAGER w1"
    by (auto simp: send_def and_then_def split: sum.splits option.splits)
  with ne w1 show "(w2, w) \<in> measure (\<lambda>w. length (outbox (CB_MANAGER w)))"
    by simp
qed

declare drain_outbox.simps [simp del]

text \<open>\<open>bytes.find\<close>: the lowest index at which the sub-sequence starts, or \<open>-1\<close>.\<close>

fun py_find :: "'a list \<Rightarrow> 'a list \<Rightarrow> int" where
  "py_find [] sub = (if sub = [] then 0 else - 1)"
| "py_find (x # xs) sub =
     (if take (length sub) (x # xs) = sub then 0
      else (let r = py_find xs sub in if r < 0 then - 1 else r + 1))"

text \<open>
  One pass through the body of the loop of \<open>find_frames\<close>: it returns, raises, or goes
  round again with the bytes after the end marker.
\<close>

datatype scan = Return bytes | Raise exn | Continue bytes

definition after_frame :: "bytes \<Rightarrow> scan" where
  "after_frame data = (if length data = 0 then Return [] else Continue data)"

definition find_frames_body :: "config \<Rightarrow> clock \<Rightarrow> bytes \<Rightarrow> world \<Rightarrow> world \<times> scan" where
  "find_frames_body cfg clk data0 w =
     (let n = py_find data0 [0x02] in
      if n < 0 then (w, Return [])
      else
        (let data = (if n > 0 then py_slice_from n data0 else data0);
             m = py_find data [0x03, 0xFF]
         in if m < 0 then (w, Return data)
            else
              (let frame_data = py_slice_to (m + 2) data;
                   rest = py_slice_from (m + 2) data
               in case and_then (Frame_from_bytes frame_data) Frame_get_packet of
                    Inl (ValueError error) \<Rightarrow> (w, after_frame rest)
                  | Inl AttributeError \<Rightarrow> (w, Raise AttributeError)
                  | Inr p \<Rightarrow>
                      if HANDLE w \<noteq> None \<and> \<not> MONITOR w then
                        (case CP_respond cfg clk p (CB_MANAGER w) of
                           Inl e \<Rightarrow> (w, Raise e)
                         | Inr cb \<Rightarrow>
                             (case drain_outbox (w\<lparr>CB_MANAGER := cb\<rparr>) of
                                (w', Some e) \<Rightarrow> (w', Raise e)
                              | (w', None) \<Rightarrow> (w', after_frame rest)))
                      else (w, after_frame rest))))"

text \<open>Every pass that goes round again has consumed at least the two bytes of an end marker.\<close>

lemma py_find_bound: "0 \<le> py_find xs sub \<Longrightarrow> nat (py_find xs sub) + length sub \<le> length xs"
proof (induction xs)
  case Nil
  then show ?case by (simp split: if_splits)
next
  case (Cons x xs)
  show ?case
  proof (cases "take (length sub) (x # xs) = sub")
    case True
    then have "length (take (length sub) (x # xs)) = length sub" by simp
    then have "length sub \<le> length (x # xs)" by (simp only: length_take min_def split: if_splits)
    with True show ?thesis by simp
  next
    case False
    with Cons.prems have "0 \<le> py_find xs sub" by (simp add: Let_def split: if_splits)
    with Cons.IH False show ?thesis by (simp add: Let_def nat_add_distrib)
  qed
qed

lemma after_frame_Continue: "after_frame r = Continue rest \<Longrightarrow> rest = r"
  by (simp add: after_frame_def split: if_splits)

lemma body_continue_shorter:
  assumes "find_frames_body cfg clk data w = (w', Continue rest)"
  shows "length rest < length data"
proof -
  define n where "n = py_find data [0x02]"
  define d where "d = (if n > 0 then py_slice_from n data else data)"
  define m where "m = py_find d [0x03, 0xFF]"
  define r where "r = py_slice_from (m + 2) d"
  define dec where "dec = and_then (Frame_from_bytes (py_slice_to (m + 2) d)) Frame_get_packet"
  have body: "find_frames_body cfg clk data w =
     (if n < 0 then (w, Return [])
      else if m < 0 then (w, Return d)
      else case dec of
             Inl (ValueError error) \<Rightarrow> (w, after_frame r)
           | Inl AttributeError \<Rightarrow> (w, Raise AttributeError)
           | Inr p \<Rightarrow>
               if HANDLE w \<noteq> None \<and> \<not> MONITOR w then
                 (case CP_respond cfg clk p (CB_MANAGER w) of
                    Inl e \<Rightarrow> (w, Raise e)
                  | Inr cb \<Rightarrow>
                      (case drain_outbox (w\<lparr>CB_MANAGER := cb\<rparr>) of
                         (w', Some e) \<Rightarrow> (w', Raise e)
                       | (w', None) \<Rightarrow> (w', after_frame r)))
               else (w, after_frame r))"
    unfolding find_frames_body_def n_def d_def m_def r_def dec_def Let_def by simp
  have n: "0 \<le> n" and m: "0 \<le> m"
    using assms unfolding body by (simp_all split: if_splits)
  have "after_frame r = Continue rest"
  proof (cases dec)
    case (Inl e)
    then show ?thesis using assms n m unfolding body by (cases e) simp_all
  next
    case (Inr p)
    show ?thesis
    proof (cases "HANDLE w \<noteq> None \<and> \<not> MONITOR w")
      case True
      then show ?thesis using assms n m Inr unfolding body
        by (simp split: sum.splits prod.splits option.splits)
    next
      case False
      then show ?thesis using assms n m Inr unfolding body by auto
    qed
  qed
  then have rest: "rest = r" by (rule after_frame_Continue)
  have "nat m + 2 \<le> length d" using py_find_bound [of d "[0x03, 0xFF]"] m by (simp add: m_def)
  then have "length rest < length d" using m
    by (simp add: rest r_def py_slice_from_def norm_index_def nat_add_distrib)
  moreover have "length d \<le> length data" by (simp add: d_def py_slice_from_def)
  ultimately show ?thesis by simp
qed

function find_frames :: "config \<Rightarrow> clock \<Rightarrow> bytes \<Rightarrow> world \<Rightarrow> world \<times> (exn + bytes)" where
  "find_frames cfg clk data w =
     (case find_frames_body cfg clk data w of
        (w', Return r) \<Rightarrow> (w', Inr r)
      | (w', Raise e) \<Rightarrow> (w', Inl e)
      | (w', Continue rest) \<Rightarrow> find_frames cfg clk rest w')"
  by pat_completeness auto
termination
proof (relation "measure (\<lambda>(cfg, clk, data, w). length data)")
  show "wf (measure (\<lambda>(cfg, clk, data, w). length data))" by simp
next
  fix cfg clk data w x1 x2 x3
  assume "(x1, x2) = find_frames_body cfg clk data w" "x2 = Continue x3"
  then have "find_frames_body cfg clk data w = (x1, Continue x3)" by simp
  from body_continue_shorter [OF this]
  show "((cfg, clk, x3, x1), cfg, clk, data, w) \<in> measure (\<lambda>(cfg, clk, data, w). length data)"
    by simp
qed

declare find_frames.simps [simp del]

section \<open>Example frames\<close>

text \<open>A charger after boot (address 0x00) asks the ChargePoint for an address: command 0x11, serial number 1234567. Payload \<open>8000111234567ABCD0003\<close>.\<close>

definition register_frame :: bytes where
  "register_frame =
    [0x02, 0x38, 0x30, 0x30, 0x30, 0x31, 0x31, 0x31, 0x32, 0x33, 0x34, 0x35, 0x36, 0x37,
     0x41, 0x42, 0x43, 0x44, 0x30, 0x30, 0x30, 0x33, 0x36, 0x33, 0x33, 0x46, 0x03, 0xFF]"

text \<open>A heartbeat request (command 0x21) of the charger 0x01 that carries two characters of data, where none are expected. Payload \<open>80012100\<close>.\<close>

definition heartbeat_frame_with_data :: bytes where
  "heartbeat_frame_with_data =
    [0x02, 0x38, 0x30, 0x30, 0x31, 0x32, 0x31, 0x30, 0x30, 0x38, 0x43, 0x30, 0x41, 0x03,
     0xFF]"

text \<open>A register response (command 0x11) sent to the broadcast address with the ChargePoint's own address 0x80 as its source. Payload \<open>BC801112345670103\<close>.\<close>

definition register_broadcast_frame :: bytes where
  "register_broadcast_frame =
    [0x02, 0x42, 0x43, 0x38, 0x30, 0x31, 0x31, 0x31, 0x32, 0x33, 0x34, 0x35, 0x36, 0x37,
     0x30, 0x31, 0x30, 0x33, 0x37, 0x46, 0x33, 0x42, 0x03, 0xFF]"

text \<open>The charger 0x01 reports charging state A7 (ready): command 0x6A. Payload \<open>80016AA700\<close>.\<close>

definition charging_state_frame :: bytes where
  "charging_state_frame =
    [0x02, 0x38, 0x30, 0x30, 0x31, 0x36, 0x41, 0x41, 0x37, 0x30, 0x30, 0x31, 0x38, 0x30,
     0x38, 0x03, 0xFF]"

text \<open>
  Two bytes of noise, the heartbeat frame that fails its schema check, the register frame
  and the first two bytes of a frame that is not yet closed.
\<close>

definition noisy_buffer :: bytes where
  "noisy_buffer = [0x41, 0x42] @ heartbeat_frame_with_data @ register_frame @ [0x02, 0x38]"

section \<open>Example packets and states\<close>

text \<open>The serial port is open and the program does not only monitor; the actor has just been made.\<close>

definition live_world :: world where
  "live_world = \<lparr>HANDLE = Some [], MONITOR = False, CB_MANAGER = CP_init (\<lambda>_. 0) []\<rparr>"

text \<open>Replaying a capture file: there is no serial port.\<close>

definition replay_world :: world where
  "replay_world = \<lparr>HANDLE = None, MONITOR = False, CB_MANAGER = CP_init (\<lambda>_. 0) []\<rparr>"

text \<open>
  An authentication request of the charger 0x01 for the card 04BA2A2ADA1790 (14
  characters, padded to 22).
\<close>

definition auth_request :: packet where
  "auth_request = \<lparr>dst = 0x80, src = 0x01, cmd = 0x22, dat = ''000E04BA2A2ADA179000000000''\<rparr>"

definition register_request :: packet where
  "register_request = \<lparr>dst = 0x80, src = 0x00, cmd = 0x11, dat = ''1234567ABCD0003''\<rparr>"

definition charging_state_ready :: packet where
  "charging_state_ready = \<lparr>dst = 0x80, src = 0x01, cmd = 0x6A, dat = ''A700''\<rparr>"

definition heartbeat_request :: packet where
  "heartbeat_request = \<lparr>dst = 0x80, src = 0x01, cmd = 0x21, dat = []\<rparr>"

text \<open>
  The actor at instant 0, after the charger has reported state A7 (a current limit was
  sent and awaits its response), has registered (phase 1), and the outbox has been
  drained.
\<close>

definition awaiting_phase1 :: cp where
  "awaiting_phase1 =
     \<lparr>outbox = [], charger_state = 1,
      last_message = \<lparr>dst = 0x01, src = 0x80, cmd = 0x6B, dat = ''01003C003C003C003C''\<rparr>,
      last_message_timestamp = 0, check_message_response = True, clock_reads = 5\<rparr>"

text \<open>The actor in phase 1 and in phase 2 with nothing awaited, last send at instant 0.\<close>

definition idle_phase1 :: cp where
  "idle_phase1 = awaiting_phase1\<lparr>check_message_response := False\<rparr>"

text \<open>The serial port is open, the actor is in phase 1 and its outbox is empty.\<close>

definition drained_world :: world where
  "drained_world = \<lparr>HANDLE = Some [], MONITOR = False, CB_MANAGER = idle_phase1\<rparr>"

section \<open>Basic facts\<close>

lemma and_then_simps:
  "and_then (Inl e) f = Inl e"
  "and_then (Inr x) f = f x"
  by (simp_all add: and_then_def)

lemma take_drop_chain: "a \<le> b \<Longrightarrow> take (b - a) (drop a xs) @ drop b xs = drop a xs"
proof -
  assume "a \<le> b"
  then have "drop b xs = drop (b - a) (drop a xs)" by simp
  then show ?thesis by (metis append_take_drop_id)
qed

lemma py_slice_neg:
  "i \<le> n \<Longrightarrow> j \<le> n \<Longrightarrow> n \<le> length xs \<Longrightarrow> 0 < i \<Longrightarrow> 0 < j \<Longrightarrow>
   py_slice (- int i) (- int j) xs
     = take ((length xs - j) - (length xs - i)) (drop (length xs - i) xs)"
  by (simp add: py_slice_def norm_index_def Let_def nat_diff_distrib)

lemma and_then_Inl_iff:
  "and_then r f = Inl e \<longleftrightarrow> r = Inl e \<or> (\<exists>x. r = Inr x \<and> f x = Inl e)"
  by (cases r) (simp_all add: and_then_simps)

lemma py_slice_nat: "py_slice (int a) (int b) xs = take (b - a) (drop a xs)"
proof (cases "a < length xs")
  case True
  then show ?thesis
    by (cases "b \<le> length xs") (simp_all add: py_slice_def norm_index_def Let_def min_def)
next
  case False
  then show ?thesis by (simp add: py_slice_def norm_index_def Let_def)
qed

lemma py_slice_numeral [simp]:
  "py_slice 0 (numeral k) xs = take (numeral k) xs"
  "py_slice (numeral j) (numeral k) xs = take (numeral k - numeral j) (drop (numeral j) xs)"
  using py_slice_nat [of 0 "numeral k" xs] py_slice_nat [of "numeral j" "numeral k" xs]
  by simp_all

lemma py_slice_from_nonneg: "0 \<le> i \<Longrightarrow> py_slice_from i xs = drop (nat i) xs"
  by (cases "nat i \<le> length xs") (simp_all add: py_slice_from_def norm_index_def min_def)

lemma py_slice_to_nonneg: "0 \<le> i \<Longrightarrow> py_slice_to i xs = take (nat i) xs"
  by (cases "nat i \<le> length xs") (simp_all add: py_slice_to_def norm_index_def min_def)

lemma addr_distinct: "ADDR_CP \<noteq> ADDR_BROADCAST" "ADDR_BROADCAST \<noteq> ADDR_CP"
  by (simp_all add: ADDR_CP_def ADDR_BROADCAST_def)

subsection \<open>Hexadecimal digits\<close>

lemma hex_digit_hex: "hex_digit d \<in> set ''0123456789ABCDEF''"
  unfolding hex_digit_def by (rule nth_mem) simp

lemma hex_str_hex: "set (hex_str n) \<subseteq> set ''0123456789ABCDEF''"
proof (induction n rule: hex_str.induct)
  case (1 n)
  show ?case
  proof (cases "n < 16")
    case True
    then show ?thesis using hex_digit_hex [of n] by (subst hex_str.simps) simp
  next
    case False
    with 1 hex_digit_hex [of "n mod 16"] show ?thesis by (subst hex_str.simps) simp
  qed
qed

lemma format_X_hex: "0 \<le> n \<Longrightarrow> set (format_X w n) \<subseteq> set ''0123456789ABCDEF''"
  using hex_str_hex [of n] by (auto simp: format_X_def zero_pad_def)

lemma length_hex_str_small: "n < 256 \<Longrightarrow> length (hex_str n) \<le> 2"
proof -
  assume "n < 256"
  then have "n div 16 < 16" by linarith
  then have "hex_str (n div 16) = [hex_digit (n div 16)]" by (subst hex_str.simps) simp
  then show ?thesis by (subst hex_str.simps) simp
qed

lemma length_hex_str_pos: "0 < length (hex_str n)"
  by (subst hex_str.simps) simp

lemma length_format_X_2: "0 \<le> n \<Longrightarrow> n < 256 \<Longrightarrow> length (format_X 2 n) = 2"
  using length_hex_str_small [of n] length_hex_str_pos [of n]
  by (simp add: format_X_def zero_pad_def)

lemma length_format_X_ge: "0 \<le> n \<Longrightarrow> w \<le> length (format_X w n)"
  by (simp add: format_X_def zero_pad_def)

lemma hex_char_ok:
  assumes "c \<in> set ''0123456789ABCDEF''"
  shows "payload_value_ok (byte_of_char c)" and "(of_char c :: nat) < 128"
  using assms by (auto simp: payload_value_ok_def byte_of_char_def)

lemma format_X_consts:
  "format_X 2 ADDR_CHARGER = ''01''" "format_X 2 ADDR_CP = ''80''"
  "format_X 2 (0x6A :: int) = ''6A''" "format_X 2 (0x6B :: int) = ''6B''"
  by code_simp+

lemma int_from_bytes_nonneg: "0 \<le> int_from_bytes bs"
proof -
  have "0 \<le> acc \<Longrightarrow> 0 \<le> fold (\<lambda>b acc. acc * 256 + uint b) bs acc" for acc
    by (induction bs arbitrary: acc) simp_all
  then show ?thesis by (simp add: int_from_bytes_def)
qed

lemma hex_int_nonneg: "hex_int s = Inr n \<Longrightarrow> 0 \<le> n"
  using int_from_bytes_nonneg by (auto simp: hex_int_def and_then_def split: sum.splits)

section \<open>Frame codec: decoding then encoding\<close>

text \<open>A frame of at least seven bytes is the concatenation of the five regions the codec reads.\<close>

lemma frame_split:
  assumes "7 \<le> length fr"
  shows "fr = py_slice 0 1 fr @ py_slice 1 (- 6) fr @ py_slice (- 6) (- 4) fr
              @ py_slice (- 4) (- 2) fr @ py_slice_from (- 2) fr"
proof -
  define n where "n = length fr"
  have n7: "7 \<le> n" using assms by (simp add: n_def)
  have a: "py_slice 0 1 fr = take (1 - 0) (drop 0 fr)"
    using assms by (simp add: py_slice_def norm_index_def)
  have b: "py_slice 1 (- 6) fr = take ((n - 6) - 1) (drop 1 fr)"
    using assms by (simp add: py_slice_def norm_index_def n_def nat_diff_distrib Let_def)
  have c: "py_slice (- 6) (- 4) fr = take ((n - 4) - (n - 6)) (drop (n - 6) fr)"
    using assms py_slice_neg [of 6 6 4 fr] by (simp add: n_def)
  have d: "py_slice (- 4) (- 2) fr = take ((n - 2) - (n - 4)) (drop (n - 4) fr)"
    using assms py_slice_neg [of 4 4 2 fr] by (simp add: n_def)
  have e: "py_slice_from (- 2) fr = drop (n - 2) fr"
    using assms by (simp add: py_slice_from_def norm_index_def n_def nat_diff_distrib)
  have "take ((n - 2) - (n - 4)) (drop (n - 4) fr) @ drop (n - 2) fr = drop (n - 4) fr"
    by (rule take_drop_chain) simp
  moreover have "take ((n - 4) - (n - 6)) (drop (n - 6) fr) @ drop (n - 4) fr = drop (n - 6) fr"
    by (rule take_drop_chain) simp
  moreover have "take ((n - 6) - 1) (drop 1 fr) @ drop (n - 6) fr = drop 1 fr"
    by (rule take_drop_chain) (use n7 in simp)
  moreover have "take (1 - 0) (drop 0 fr) @ drop 1 fr = drop 0 fr"
    by (rule take_drop_chain) simp
  ultimately show ?thesis
    unfolding a b c d e by simp
qed

lemma validate_ok_iff:
  "Frame_validate fr = Inr v \<longleftrightarrow> v \<and> Frame_validate_errors fr = []"
  by (auto simp: Frame_validate_def Let_def)

lemma validate_errors_nil:
  assumes "Frame_validate_errors fr = []"
  shows "13 \<le> length fr" "py_slice 0 1 fr = [0x02]" "py_slice_from (- 2) fr = [0x03, 0xFF]"
    "py_slice (- 6) (- 4) fr = Frame_calculate_checksum (py_slice 1 (- 6) fr)"
    "py_slice (- 4) (- 2) fr = Frame_calculate_parity (py_slice 1 (- 6) fr)"
  using assms by (simp_all add: Frame_validate_errors_def Let_def split: if_splits)

text \<open>
  Claim C1. Every byte string \<open>b\<close> that the Frame decoder accepts (\<open>Frame(b)\<close> raises
  nothing) is what \<open>get_bytes\<close> of the decoded frame returns: the start marker, the
  payload, its checksum and parity and the end marker put together are \<open>b\<close> again, and
  the encoder's own validation of it succeeds.
\<close>

theorem frame_decode_encode_roundtrip:
  assumes "Frame_from_bytes b = Inr f"
  shows "Frame_get_bytes f = Inr b"
proof -
  from assms have ok: "Frame_validate b = Inr True"
    and f: "f = \<lparr>payload = py_slice 1 (- 6) b\<rparr>"
    by (auto simp: Frame_from_bytes_def and_then_def Frame_validate_def Let_def
             split: sum.splits if_splits)
  then have nil: "Frame_validate_errors b = []" by (simp add: validate_ok_iff)
  have len: "7 \<le> length b" using validate_errors_nil(1) [OF nil] by simp
  have "[0x02] @ payload f @ Frame_calculate_checksum (payload f)
          @ Frame_calculate_parity (payload f) @ [0x03, 0xFF] = b"
    using frame_split [OF len] validate_errors_nil(2-5) [OF nil] by (simp add: f)
  then show ?thesis
    using ok by (simp add: Frame_get_bytes_def Let_def and_then_simps del: append.simps)
qed

text \<open>
  The frame of the register request of a charger after boot (payload
  \<open>8000111234567ABCD0003\<close>) decodes and encodes back to itself.
\<close>

theorem frame_decode_encode_roundtrip_witness:
  "Frame_from_bytes register_frame = Inr \<lparr>payload = map byte_of_char ''8000111234567ABCD0003''\<rparr>
   \<and> Frame_get_bytes \<lparr>payload = map byte_of_char ''8000111234567ABCD0003''\<rparr> = Inr register_frame"
proof -
  have h: "Frame_from_bytes register_frame
             = Inr \<lparr>payload = map byte_of_char ''8000111234567ABCD0003''\<rparr>"
    by code_simp
  from frame_decode_encode_roundtrip [OF h] h show ?thesis by simp
qed

section \<open>The encoder accepts what it makes\<close>

lemma length_checksum: "length (Frame_calculate_checksum pl) = 2"
  by (simp add: Frame_calculate_checksum_def Let_def length_format_X_2)

lemma length_parity: "length (Frame_calculate_parity pl) = 2"
proof -
  have "uint (w :: byte) < 256" for w using uint_bounded [of w] by simp
  then show ?thesis by (simp add: Frame_calculate_parity_def Let_def length_format_X_2)
qed

lemma drop_past_payload: "drop (length pl + Suc j) (x # pl @ ys) = drop j ys"
  by simp

text \<open>
  A payload of at least six bytes, each 0x00, a digit or an upper-case letter, is framed
  without error.
\<close>

lemma Frame_get_bytes_ok:
  assumes ok: "list_all payload_value_ok pl" and len: "6 \<le> length pl"
  shows "Frame_get_bytes \<lparr>payload = pl\<rparr> =
           Inr ([0x02] @ pl @ Frame_calculate_checksum pl @ Frame_calculate_parity pl @ [0x03, 0xFF])"
proof -
  obtain c1 c2 where c: "Frame_calculate_checksum pl = [c1, c2]"
    using length_checksum [of pl] by (auto simp: length_Suc_conv numeral_2_eq_2)
  obtain p1 p2 where p: "Frame_calculate_parity pl = [p1, p2]"
    using length_parity [of pl] by (auto simp: length_Suc_conv numeral_2_eq_2)
  define fr where "fr = [0x02] @ pl @ [c1, c2] @ [p1, p2] @ [0x03, 0xFF]"
  have n: "length fr = length pl + 7" by (simp add: fr_def)
  have i2: "norm_index (length fr) (- 2) = length pl + 5"
    and i4: "norm_index (length fr) (- 4) = length pl + 3"
    and i6: "norm_index (length fr) (- 6) = length pl + 1"
    and i0: "norm_index (length fr) 0 = 0" and i1: "norm_index (length fr) 1 = 1"
    by (simp_all add: norm_index_def n)
  have s1: "py_slice 0 1 fr = [0x02]"
    unfolding py_slice_def Let_def i0 i1 by (simp add: fr_def)
  have d5: "drop (length pl + 5) fr = [0x03, 0xFF]"
    using drop_past_payload [of pl 4 2 "[c1, c2, p1, p2, 0x03, 0xFF]"] by (simp add: fr_def)
  have d3: "drop (length pl + 3) fr = [p1, p2, 0x03, 0xFF]"
    using drop_past_payload [of pl 2 2 "[c1, c2, p1, p2, 0x03, 0xFF]"] by (simp add: fr_def)
  have d1: "drop (length pl + 1) fr = [c1, c2, p1, p2, 0x03, 0xFF]"
    using drop_past_payload [of pl 0 2 "[c1, c2, p1, p2, 0x03, 0xFF]"] by (simp add: fr_def)
  have s2: "py_slice_from (- 2) fr = [0x03, 0xFF]"
    unfolding py_slice_from_def i2 by (rule d5)
  have s3: "py_slice 1 (- 6) fr = pl"
    unfolding py_slice_def Let_def i1 i6 by (simp add: fr_def)
  have s4: "py_slice (- 6) (- 4) fr = [c1, c2]"
    unfolding py_slice_def Let_def i4 i6 d1 by simp
  have s5: "py_slice (- 4) (- 2) fr = [p1, p2]"
    unfolding py_slice_def Let_def i2 i4 d3 by simp
  have no2: "0x02 \<notin> set pl" and no3: "0x03 \<notin> set pl"
    using ok by (auto simp: list_all_iff payload_value_ok_def)
  have vals: "concat (map (\<lambda>b. if \<not> payload_value_ok b then [InvalidPayloadValue b] else []) pl) = []"
    using ok by (induction pl) simp_all
  have "Frame_validate_errors fr = []"
    unfolding Frame_validate_errors_def Let_def s1 s2 s3 s4 s5 vals
    using len no2 no3 by (simp add: n c p)
  then have "Frame_validate fr = Inr True" by (simp add: Frame_validate_def)
  then show ?thesis by (simp add: Frame_get_bytes_def Let_def c p fr_def and_then_simps)
qed

text \<open>A packet that passes its schema check and carries hexadecimal data is sent as its frame.\<close>

lemma wire_bytes_hex:
  assumes "Packet_print p = Inr ()" and "set (dat p) \<subseteq> set ''0123456789ABCDEF''"
    and nonneg: "0 \<le> dst p" "0 \<le> src p" "0 \<le> cmd p"
  shows "wire_bytes p =
     (let pl = map byte_of_char (format_X 2 (dst p) @ format_X 2 (src p) @ format_X 2 (cmd p) @ dat p)
      in Inr ([0x02] @ pl @ Frame_calculate_checksum pl @ Frame_calculate_parity pl @ [0x03, 0xFF]))"
proof -
  define s where "s = format_X 2 (dst p) @ format_X 2 (src p) @ format_X 2 (cmd p) @ dat p"
  have hex: "set s \<subseteq> set ''0123456789ABCDEF''"
    unfolding s_def using format_X_hex [of _ 2] assms(2) nonneg by (simp del: set_simps)
  then have ascii: "list_all (\<lambda>c. (of_char c :: nat) < 128) s"
    and ok: "list_all payload_value_ok (map byte_of_char s)"
    using hex_char_ok by (auto simp: list_all_iff simp del: set_simps)
  have len: "6 \<le> length (map byte_of_char s)"
    using length_format_X_ge [of "dst p" 2] length_format_X_ge [of "src p" 2]
      length_format_X_ge [of "cmd p" 2] nonneg by (simp add: s_def)
  have "Packet_get_payload p = Inr (map byte_of_char s)"
    using ascii assms(1)
    by (simp add: Packet_get_payload_def encode_ascii_def s_def [symmetric] and_then_simps)
  then show ?thesis
    using Frame_get_bytes_ok [OF ok len]
    by (simp add: wire_bytes_def Frame_from_packet_def Let_def s_def [symmetric] and_then_simps)
qed

section \<open>ChargePoint actor: replies\<close>

lemma CP_send_untracked:
  "CP_send clk p False s =
     s\<lparr>clock_reads := clock_reads s + 1, last_message_timestamp := clk (clock_reads s),
       outbox := p # outbox s\<rparr>"
  by (simp add: CP_send_def datetime_now_def)

lemma CP_send_tracked:
  "CP_send clk p True s =
     s\<lparr>check_message_response := True, last_message := p,
       clock_reads := clock_reads s + 1, last_message_timestamp := clk (clock_reads s),
       outbox := p # outbox s\<rparr>"
  by (simp add: CP_send_def datetime_now_def)

text \<open>
  Claim C5. For every 0x11 register request handed to \<open>respond\<close> when the outbox is
  empty, \<open>respond\<close> returns, the charger state is 1 (phase 1) afterwards, and the outbox
  holds exactly one packet: command 0x11, to the source of the request, from the
  ChargePoint, with the first seven characters of the request's data followed by \<open>01\<close> and
  \<open>03\<close>. Nothing else of the actor changes but the time of the last send.
\<close>

theorem register_reply:
  assumes "cmd message = 0x11"
    and "dst message = ADDR_CP \<or> dst message = ADDR_BROADCAST"
    and "outbox s = []"
  shows "CP_respond cfg clk message s =
     Inr (s\<lparr>clock_reads := clock_reads s + 1,
             last_message_timestamp := clk (clock_reads s),
             outbox := [\<lparr>dst = src message, src = ADDR_CP, cmd = 0x11,
                         dat = take 7 (dat message) @ ''01'' @ ''03''\<rparr>],
             charger_state := 1\<rparr>)"
  using assms
  by (auto simp: CP_respond_def CP_send_untracked format_X_consts addr_distinct)

theorem register_reply_witness:
  "cmd register_request = 0x11
   \<and> (dst register_request = ADDR_CP \<or> dst register_request = ADDR_BROADCAST)
   \<and> outbox (awaiting_phase1\<lparr>charger_state := 0\<rparr>) = []
   \<and> CP_respond config_py (\<lambda>_. 7) register_request (awaiting_phase1\<lparr>charger_state := 0\<rparr>) =
       Inr (awaiting_phase1\<lparr>charger_state := 0, clock_reads := 6, last_message_timestamp := 7,
              outbox := [\<lparr>dst = 0x00, src = ADDR_CP, cmd = 0x11, dat = ''12345670103''\<rparr>],
              charger_state := 1\<rparr>)"
proof -
  have h1: "cmd register_request = 0x11" by (simp add: register_request_def)
  have h2: "dst register_request = ADDR_CP \<or> dst register_request = ADDR_BROADCAST"
    by (simp add: register_request_def ADDR_CP_def)
  have h3: "outbox (awaiting_phase1\<lparr>charger_state := 0\<rparr>) = []"
    by (simp add: awaiting_phase1_def)
  from register_reply [OF h1 h2 h3, of config_py "\<lambda>_. 7"] h1 h2 h3
  show ?thesis by (simp add: register_request_def awaiting_phase1_def)
qed

text \<open>
  Claim C4. For every 0x22 authentication request handed to \<open>respond\<close> whose length field
  \<open>dat[2:4]\<close> is hexadecimal (as it is in every packet the decoder lets through), the reply
  put into the outbox has the status \<open>01\<close> exactly when the card number \<open>dat[4:4+length]\<close>
  is \<open>000000AS\<close> or one of the allowed cards, and \<open>12\<close> otherwise; its data is the status,
  the length as two hexadecimal digits, the card number padded on the right with \<open>0\<close> to
  22 characters, and \<open>FFFF\<close>.
\<close>

theorem auth_reply:
  assumes "cmd message = 0x22"
    and "dst message = ADDR_CP \<or> dst message = ADDR_BROADCAST"
    and "hex_int (take 2 (drop 2 (dat message))) = Inr card_number_length"
    and "card_number = take (nat card_number_length) (drop 4 (dat message))"
  shows "CP_respond cfg clk message s =
     Inr (s\<lparr>clock_reads := clock_reads s + 1,
             last_message_timestamp := clk (clock_reads s),
             outbox := \<lparr>dst = src message, src = ADDR_CP, cmd = 0x22,
                        dat = (if card_number = ''000000AS'' \<or> card_number \<in> set (allowed_cards cfg)
                               then ''01'' else ''12'')
                              @ format_X 2 card_number_length
                              @ card_number @ replicate (22 - length card_number) (CHR ''0'')
                              @ ''FFFF''\<rparr> # outbox s\<rparr>)"
proof -
  have "0 \<le> card_number_length" using assms(3) by (rule hex_int_nonneg)
  then have cn: "py_slice 4 (4 + card_number_length) (dat message) = card_number"
    using py_slice_nat [of 4 "4 + nat card_number_length" "dat message"] assms(4) by simp
  show ?thesis
    using assms(1-3)
    by (auto simp: CP_respond_def CP_send_untracked addr_distinct and_then_simps cn Let_def
                   format_str0_def)
qed

text \<open>Every authentication request that the packet decoder lets through has such a length field.\<close>

lemma decoded_auth_length_field:
  assumes "Packet_print message = Inr ()" and "cmd message = 0x22"
  shows "\<exists>n. hex_int (take 2 (drop 2 (dat message))) = Inr n"
proof (cases "hex_int (take 2 (drop 2 (dat message)))")
  case (Inl e)
  have "Packet_checks message = and_then (hex_int (py_slice 0 4 (dat message))) (\<lambda>foo.
          checked (if dst message = ADDR_CP then length_ne (length (dat message)) 26
                   else length_ne (length (dat message)) 30) (dat message) [(0, 2), (2, 4)])"
    using assms(2) by (simp add: Packet_checks_def Let_def)
  with Inl have "\<exists>e. Packet_checks message = Inl e"
    by (cases "hex_int (py_slice 0 4 (dat message))";
        cases "hex_int (take 2 (dat message))")
       (simp_all add: and_then_simps checked_def)
  with assms(1) show ?thesis by (auto simp: Packet_print_def and_then_simps)
next
  case (Inr n)
  then show ?thesis by blast
qed

theorem auth_reply_witness:
  "cmd auth_request = 0x22
   \<and> (dst auth_request = ADDR_CP \<or> dst auth_request = ADDR_BROADCAST)
   \<and> hex_int (take 2 (drop 2 (dat auth_request))) = Inr 14
   \<and> ''04BA2A2ADA1790'' = take (nat 14) (drop 4 (dat auth_request))
   \<and> CP_respond config_py (\<lambda>_. 7) auth_request awaiting_phase1 =
       Inr (awaiting_phase1\<lparr>clock_reads := 6, last_message_timestamp := 7,
              outbox := [\<lparr>dst = 0x01, src = ADDR_CP, cmd = 0x22,
                          dat = ''01'' @ ''0E'' @ ''04BA2A2ADA179000000000'' @ ''FFFF''\<rparr>]\<rparr>)"
proof -
  have h1: "cmd auth_request = 0x22" by (simp add: auth_request_def)
  have h2: "dst auth_request = ADDR_CP \<or> dst auth_request = ADDR_BROADCAST"
    by (simp add: auth_request_def ADDR_CP_def)
  have h3: "hex_int (take 2 (drop 2 (dat auth_request))) = Inr 14" by code_simp
  have h4: "''04BA2A2ADA1790'' = take (nat 14) (drop 4 (dat auth_request))" by code_simp
  have e: "awaiting_phase1
             \<lparr>clock_reads := clock_reads awaiting_phase1 + 1,
              last_message_timestamp := 7,
              outbox := \<lparr>dst = src auth_request, src = ADDR_CP, cmd = 0x22,
                         dat = (if ''04BA2A2ADA1790'' = ''000000AS''
                                   \<or> ''04BA2A2ADA1790'' \<in> set (allowed_cards config_py)
                                then ''01'' else ''12'')
                               @ format_X 2 14 @ ''04BA2A2ADA1790''
                               @ replicate (22 - length ''04BA2A2ADA1790'') (CHR ''0'')
                               @ ''FFFF''\<rparr> # outbox awaiting_phase1\<rparr>
           = awaiting_phase1\<lparr>clock_reads := 6, last_message_timestamp := 7,
              outbox := [\<lparr>dst = 0x01, src = ADDR_CP, cmd = 0x22,
                          dat = ''01'' @ ''0E'' @ ''04BA2A2ADA179000000000'' @ ''FFFF''\<rparr>]\<rparr>"
    by code_simp
  have "CP_respond config_py (\<lambda>_. 7) auth_request awaiting_phase1 =
       Inr (awaiting_phase1\<lparr>clock_reads := 6, last_message_timestamp := 7,
              outbox := [\<lparr>dst = 0x01, src = ADDR_CP, cmd = 0x22,
                          dat = ''01'' @ ''0E'' @ ''04BA2A2ADA179000000000'' @ ''FFFF''\<rparr>]\<rparr>)"
    unfolding e [symmetric] by (rule auth_reply [OF h1 h2 h3 h4])
  with h1 h2 h3 h4 show ?thesis by blast
qed

text \<open>
  Claim C6. For every 0x6A charging-state request handed to \<open>respond\<close>, a 0x6A reply with
  data \<open>AA00\<close> is put into the outbox. If the state code \<open>dat[0:2]\<close> is \<open>A7\<close>, a 0x6B
  request with data \<open>01003C003C003C003C\<close> follows it; if it is \<open>81\<close>, a 0x6B request with
  data \<open>01003C00A000A000A0\<close>; both are retry-tracked (they become the last message and
  set the awaiting flag). For every other state code only the reply is put into the outbox
  and the last message and the flag stay as they are.
\<close>

theorem charging_state_reply:
  assumes "cmd message = 0x6A"
    and "dst message = ADDR_CP \<or> dst message = ADDR_BROADCAST"
    and "ack = \<lparr>dst = src message, src = ADDR_CP, cmd = 0x6A, dat = ''AA00''\<rparr>"
    and "state = take 2 (dat message)"
  shows "CP_respond cfg clk message s =
     Inr (if state = ''A7'' \<or> state = ''81'' then
            (let request = \<lparr>dst = src message, src = ADDR_CP, cmd = 0x6B,
                             dat = (if state = ''A7'' then ''01003C003C003C003C''
                                    else ''01003C00A000A000A0'')\<rparr>
             in s\<lparr>check_message_response := True, last_message := request,
                   clock_reads := clock_reads s + 2,
                   last_message_timestamp := clk (clock_reads s + 1),
                   outbox := request # ack # outbox s\<rparr>)
          else s\<lparr>clock_reads := clock_reads s + 1,
                  last_message_timestamp := clk (clock_reads s),
                  outbox := ack # outbox s\<rparr>)"
  using assms
  by (auto simp: CP_respond_def CP_send_untracked CP_send_tracked addr_distinct Let_def)

theorem charging_state_reply_witness:
  "cmd charging_state_ready = 0x6A
   \<and> (dst charging_state_ready = ADDR_CP \<or> dst charging_state_ready = ADDR_BROADCAST)
   \<and> ''A7'' = take 2 (dat charging_state_ready)
   \<and> CP_respond config_py (\<lambda>_. 7) charging_state_ready idle_phase1 =
       Inr (idle_phase1
             \<lparr>check_message_response := True,
              last_message := \<lparr>dst = 0x01, src = ADDR_CP, cmd = 0x6B, dat = ''01003C003C003C003C''\<rparr>,
              clock_reads := 7, last_message_timestamp := 7,
              outbox := [\<lparr>dst = 0x01, src = ADDR_CP, cmd = 0x6B, dat = ''01003C003C003C003C''\<rparr>,
                         \<lparr>dst = 0x01, src = ADDR_CP, cmd = 0x6A, dat = ''AA00''\<rparr>]\<rparr>)"
proof -
  have h1: "cmd charging_state_ready = 0x6A" by (simp add: charging_state_ready_def)
  have h2: "dst charging_state_ready = ADDR_CP \<or> dst charging_state_ready = ADDR_BROADCAST"
    by (simp add: charging_state_ready_def ADDR_CP_def)
  have h4: "''A7'' = take 2 (dat charging_state_ready)" by code_simp
  have e: "(if ''A7'' = ''A7'' \<or> ''A7'' = ''81'' then
              (let request = \<lparr>dst = src charging_state_ready, src = ADDR_CP, cmd = 0x6B,
                               dat = (if ''A7'' = ''A7'' then ''01003C003C003C003C''
                                      else ''01003C00A000A000A0'')\<rparr>
               in idle_phase1\<lparr>check_message_response := True, last_message := request,
                     clock_reads := clock_reads idle_phase1 + 2,
                     last_message_timestamp := 7,
                     outbox := request
                       # \<lparr>dst = src charging_state_ready, src = ADDR_CP, cmd = 0x6A, dat = ''AA00''\<rparr>
                       # outbox idle_phase1\<rparr>)
            else idle_phase1\<lparr>clock_reads := clock_reads idle_phase1 + 1,
                    last_message_timestamp := 7,
                    outbox := \<lparr>dst = src charging_state_ready, src = ADDR_CP, cmd = 0x6A, dat = ''AA00''\<rparr>
                       # outbox idle_phase1\<rparr>)
         = idle_phase1
             \<lparr>check_message_response := True,
              last_message := \<lparr>dst = 0x01, src = ADDR_CP, cmd = 0x6B, dat = ''01003C003C003C003C''\<rparr>,
              clock_reads := 7, last_message_timestamp := 7,
              outbox := [\<lparr>dst = 0x01, src = ADDR_CP, cmd = 0x6B, dat = ''01003C003C003C003C''\<rparr>,
                         \<lparr>dst = 0x01, src = ADDR_CP, cmd = 0x6A, dat = ''AA00''\<rparr>]\<rparr>"
    by code_simp
  have "CP_respond config_py (\<lambda>_. 7) charging_state_ready idle_phase1 =
       Inr (idle_phase1
             \<lparr>check_message_response := True,
              last_message := \<lparr>dst = 0x01, src = ADDR_CP, cmd = 0x6B, dat = ''01003C003C003C003C''\<rparr>,
              clock_reads := 7, last_message_timestamp := 7,
              outbox := [\<lparr>dst = 0x01, src = ADDR_CP, cmd = 0x6B, dat = ''01003C003C003C003C''\<rparr>,
                         \<lparr>dst = 0x01, src = ADDR_CP, cmd = 0x6A, dat = ''AA00''\<rparr>]\<rparr>)"
    unfolding e [symmetric] by (rule charging_state_reply [OF h1 h2 refl h4])
  with h1 h2 h4 show ?thesis by blast
qed

section \<open>ChargePoint actor: timers\<close>

text \<open>\<open>timers\<close> when the clock stands still at \<open>now\<close> during the call.\<close>

lemma timers_const_clock:
  "CP_timers (\<lambda>_. now) s =
     (let s1 = (if check_message_response s then
                  (if last_message_timestamp s + 2000000 > now
                   then s\<lparr>clock_reads := clock_reads s + 1\<rparr>
                   else s\<lparr>check_message_response := True, last_message := last_message s,
                          clock_reads := clock_reads s + 2, last_message_timestamp := now,
                          outbox := last_message s # outbox s\<rparr>)
                else s)
      in if charger_state s1 > 0 then CP_configure_charger (\<lambda>_. now) s1 else s1)"
  by (simp add: CP_timers_def CP_check_response_def datetime_now_def CP_send_tracked Let_def)

text \<open>The retransmission check for any clock: it compares the first reading it makes.\<close>

lemma check_response_any_clock:
  "outbox (CP_check_response clk s) =
     (if clk (clock_reads s) - last_message_timestamp s \<ge> 2000000
      then last_message s # outbox s else outbox s)"
  by (simp add: CP_check_response_def datetime_now_def CP_send_tracked)

text \<open>
  Claim C7. For every actor state whose awaiting-response flag is set, \<open>timers\<close> (with the
  clock at \<open>now\<close>) puts the last message into the outbox again exactly when
  \<open>now - last_message_timestamp\<close> is at least 2 seconds, and leaves the outbox as it is when
  it is less. The flag is still set afterwards and the last message is the same: the
  state holds no retry counter, and only a response clears the flag. The charger state
  does not move in such a call.
\<close>

theorem retransmission:
  assumes "check_message_response s"
  shows "(let s' = CP_timers (\<lambda>_. now) s in
          outbox s' = (if now - last_message_timestamp s \<ge> 2000000
                       then last_message s # outbox s else outbox s)
        \<and> check_message_response s'
        \<and> last_message s' = last_message s
        \<and> charger_state s' = charger_state s
        \<and> last_message_timestamp s' = (if now - last_message_timestamp s \<ge> 2000000
                                        then now else last_message_timestamp s))"
  using assms
  by (auto simp: timers_const_clock CP_configure_charger_def datetime_now_def Let_def)

theorem retransmission_witness:
  "check_message_response awaiting_phase1
   \<and> outbox (CP_timers (\<lambda>_. 2000001) awaiting_phase1) = [last_message awaiting_phase1]
   \<and> outbox (CP_timers (\<lambda>_. 1999999) awaiting_phase1) = []
   \<and> check_message_response (CP_timers (\<lambda>_. 2000001) awaiting_phase1)"
proof -
  have h: "check_message_response awaiting_phase1" by (simp add: awaiting_phase1_def)
  have t: "last_message_timestamp awaiting_phase1 = 0" "outbox awaiting_phase1 = []"
    by (simp_all add: awaiting_phase1_def)
  from retransmission [OF h, of 2000001] retransmission [OF h, of 1999999] h
  show ?thesis by (simp add: Let_def t)
qed

text \<open>
  Claim C8, as the code has it. For every actor state whose awaiting-response flag is
  clear, \<open>timers\<close> (with the clock at \<open>now\<close>) does this once \<open>now - last_message_timestamp\<close>
  is at least 5 seconds: in phase 1 it puts a 0x1B request to the charger with data
  \<open>0000003C\<close> \<open>00\<close> into the outbox, not retry-tracked, and goes to phase 2; in phase 2 it
  puts the 0x34 request to the charger with the fixed configuration into the outbox,
  retry-tracked, and goes to phase 3; in phase 3 it puts nothing into the outbox and goes
  back to 0. Before the 5 seconds are over, phase and outbox stay as they are.
\<close>

theorem configuration_walk:
  assumes "\<not> check_message_response s"
  shows "(let s' = CP_timers (\<lambda>_. now) s;
              configuration = \<lparr>dst = ADDR_CHARGER, src = ADDR_CP, cmd = 0x34,
                 dat = ''FFFFFFFF'' @ ''1E'' @ ''030000'' @ ''01'' @ ''01000100000000000000''
                       @ ''01'' @ ''000000003C'' @ ''00000384'' @ ''0000003C'' @ ''01000000''
                       @ ''00'' @ ''03E8010000''\<rparr>
          in
          if now - last_message_timestamp s < 5000000 then
            outbox s' = outbox s \<and> charger_state s' = charger_state s
          else if charger_state s = 1 then
            outbox s' = \<lparr>dst = ADDR_CHARGER, src = ADDR_CP, cmd = 0x1B,
                          dat = ''0000003C'' @ ''00''\<rparr> # outbox s
            \<and> charger_state s' = 2
            \<and> \<not> check_message_response s' \<and> last_message s' = last_message s
          else if charger_state s = 2 then
            outbox s' = configuration # outbox s
            \<and> charger_state s' = 3
            \<and> check_message_response s' \<and> last_message s' = configuration
          else if charger_state s = 3 then
            outbox s' = outbox s \<and> charger_state s' = 0
          else outbox s' = outbox s \<and> charger_state s' = charger_state s)"
  using assms
  by (simp add: timers_const_clock CP_configure_charger_def datetime_now_def Let_def
                CP_send_untracked CP_send_tracked)

theorem configuration_walk_witness:
  "\<not> check_message_response idle_phase1
   \<and> outbox (CP_timers (\<lambda>_. 5000000) idle_phase1)
       = [\<lparr>dst = ADDR_CHARGER, src = ADDR_CP, cmd = 0x1B, dat = ''0000003C00''\<rparr>]
   \<and> charger_state (CP_timers (\<lambda>_. 5000000) idle_phase1) = 2
   \<and> outbox (CP_timers (\<lambda>_. 4999999) idle_phase1) = []
   \<and> charger_state (CP_timers (\<lambda>_. 4999999) idle_phase1) = 1"
proof -
  have h: "\<not> check_message_response idle_phase1"
    by (simp add: idle_phase1_def awaiting_phase1_def)
  have t: "last_message_timestamp idle_phase1 = 0" "outbox idle_phase1 = []"
    "charger_state idle_phase1 = 1"
    by (simp_all add: idle_phase1_def awaiting_phase1_def)
  from configuration_walk [OF h, of 5000000] configuration_walk [OF h, of 4999999] h
  show ?thesis by (simp add: Let_def t)
qed

text \<open>
  The claim as stated fails when a response is awaited: the state \<open>awaiting_phase1\<close> is in
  phase 1 and its last send is 5 seconds old, but \<open>timers\<close> sends the awaited 0x6B request
  again, which renews the time of the last send, and the phase stays 1. The state is
  reached from a new actor by a charging-state request A7 and a register request.
\<close>

lemma awaiting_phase1_reachable:
  "and_then (CP_respond config_py (\<lambda>_. 0) charging_state_ready (CP_init (\<lambda>_. 0) []))
     (\<lambda>s. and_then (CP_respond config_py (\<lambda>_. 0) register_request s)
        (\<lambda>s. Inr (s\<lparr>outbox := []\<rparr>)))
   = Inr awaiting_phase1"
  by code_simp

theorem configuration_walk_counterexample:
  "charger_state awaiting_phase1 = 1
   \<and> 5000000 - last_message_timestamp awaiting_phase1 \<ge> 5000000
   \<and> charger_state (CP_timers (\<lambda>_. 5000000) awaiting_phase1) = 1
   \<and> outbox (CP_timers (\<lambda>_. 5000000) awaiting_phase1)
       = [\<lparr>dst = 0x01, src = 0x80, cmd = 0x6B, dat = ''01003C003C003C003C''\<rparr>]"
  by code_simp

text \<open>Whenever \<open>respond\<close> puts a packet into the outbox, \<open>_send\<close> has set the time of the last send.\<close>

lemma respond_reply_timestamp:
  assumes "CP_respond cfg (\<lambda>_. t) message s = Inr s'" and "outbox s' \<noteq> outbox s"
  shows "last_message_timestamp s' = t"
proof -
  have send: "last_message_timestamp (CP_send (\<lambda>_. t) p c x) = t" for p c x
    by (cases c) (simp_all add: CP_send_untracked CP_send_tracked)
  have ob: "outbox (CP_disable_response_check x) = outbox x" for x
    by (simp add: CP_disable_response_check_def)
  show ?thesis
  proof (cases "dst message \<noteq> ADDR_BROADCAST \<and> dst message \<noteq> ADDR_CP")
    case True
    with assms show ?thesis by (simp add: CP_respond_def)
  next
    case False
    with assms show ?thesis
      unfolding CP_respond_def Let_def
      by (auto simp: send ob and_then_Inl_iff and_then_def
               split: if_splits sum.splits prod.splits)
  qed
qed

lemma timers_gate_2s:
  "now < last_message_timestamp s + 2000000 \<Longrightarrow> outbox (CP_timers (\<lambda>_. now) s) = outbox s"
  by (simp add: timers_const_clock CP_configure_charger_def datetime_now_def Let_def)

lemma timers_gate_5s:
  "now < last_message_timestamp s + 5000000 \<Longrightarrow>
     charger_state (CP_timers (\<lambda>_. now) s) = charger_state s"
  by (simp add: timers_const_clock CP_configure_charger_def datetime_now_def Let_def)

text \<open>
  Claim C10. A send that is not retry-tracked changes the time of the last send, the
  outbox and nothing else: the last message and the awaiting flag stay. A tracked send
  sets the same time. So whenever \<open>respond\<close> (at instant \<open>t\<close>) has put a packet into the
  outbox, the time of the last send is \<open>t\<close>, and a later \<open>timers\<close> neither sends the awaited
  message again before \<open>t\<close> plus 2 seconds nor moves the configuration phase before \<open>t\<close> plus
  5 seconds, however old the awaited request is.
\<close>

theorem reply_postpones_timers:
  "CP_send clk p False s =
     s\<lparr>clock_reads := clock_reads s + 1, last_message_timestamp := clk (clock_reads s),
       outbox := p # outbox s\<rparr>
   \<and> last_message_timestamp (CP_send clk p True s) = clk (clock_reads s)
   \<and> (CP_respond cfg (\<lambda>_. t) message s = Inr s' \<and> outbox s' \<noteq> outbox s \<longrightarrow>
        last_message_timestamp s' = t
        \<and> (now < t + 2000000 \<longrightarrow> outbox (CP_timers (\<lambda>_. now) s') = outbox s')
        \<and> (now < t + 5000000 \<longrightarrow> charger_state (CP_timers (\<lambda>_. now) s') = charger_state s'))"
  using respond_reply_timestamp [of cfg t message s s'] timers_gate_2s [of now s']
    timers_gate_5s [of now s']
  by (auto simp: CP_send_untracked CP_send_tracked)

text \<open>
  At instant 0 a current limit was sent and awaits its response. A heartbeat arrives at
  3 seconds and is answered. At 4.9 seconds the awaited request is 4.9 seconds old, but
  \<open>timers\<close> does not send it again.
\<close>

theorem reply_postpones_timers_witness:
  "CP_respond config_py (\<lambda>_. 3000000) heartbeat_request awaiting_phase1
     = Inr (awaiting_phase1\<lparr>clock_reads := 6, last_message_timestamp := 3000000,
              outbox := [\<lparr>dst = 0x01, src = 0x80, cmd = 0x21, dat = []\<rparr>]\<rparr>)
   \<and> outbox (awaiting_phase1\<lparr>clock_reads := 6, last_message_timestamp := 3000000,
              outbox := [\<lparr>dst = 0x01, src = 0x80, cmd = 0x21, dat = []\<rparr>]\<rparr>)
       \<noteq> outbox awaiting_phase1
   \<and> outbox (CP_timers (\<lambda>_. 4900000)
        (awaiting_phase1\<lparr>clock_reads := 6, last_message_timestamp := 3000000,
              outbox := [\<lparr>dst = 0x01, src = 0x80, cmd = 0x21, dat = []\<rparr>]\<rparr>))
       = [\<lparr>dst = 0x01, src = 0x80, cmd = 0x21, dat = []\<rparr>]
   \<and> charger_state (CP_timers (\<lambda>_. 4900000)
        (awaiting_phase1\<lparr>clock_reads := 6, last_message_timestamp := 3000000,
              outbox := [\<lparr>dst = 0x01, src = 0x80, cmd = 0x21, dat = []\<rparr>]\<rparr>))
       = 1"
proof -
  define s' where "s' = awaiting_phase1\<lparr>clock_reads := 6, last_message_timestamp := 3000000,
              outbox := [\<lparr>dst = 0x01, src = 0x80, cmd = 0x21, dat = []\<rparr>]\<rparr>"
  have h1: "CP_respond config_py (\<lambda>_. 3000000) heartbeat_request awaiting_phase1 = Inr s'"
    unfolding s'_def by code_simp
  have h2: "outbox s' \<noteq> outbox awaiting_phase1"
    by (simp add: s'_def awaiting_phase1_def)
  have v: "outbox s' = [\<lparr>dst = 0x01, src = 0x80, cmd = 0x21, dat = []\<rparr>]" "charger_state s' = 1"
    by (simp_all add: s'_def awaiting_phase1_def)
  from reply_postpones_timers [where cfg = config_py and t = 3000000
      and message = heartbeat_request and s = awaiting_phase1 and s' = s' and now = 4900000]
    h1 h2
  have "outbox (CP_timers (\<lambda>_. 4900000) s') = outbox s'"
    and "charger_state (CP_timers (\<lambda>_. 4900000) s') = charger_state s'"
    by simp_all
  with h1 h2 v show ?thesis unfolding s'_def by simp
qed

section \<open>Decoding raises nothing but ValueError\<close>

lemma bytes_fromhex_raises: "bytes_fromhex s = Inl e \<Longrightarrow> e = ValueError NonHexadecimal"
  by (induction s rule: bytes_fromhex.induct)
     (auto split: if_splits option.splits sum.splits)

lemma hex_int_raises: "hex_int s = Inl e \<Longrightarrow> e = ValueError NonHexadecimal"
  by (auto simp: hex_int_def and_then_Inl_iff dest: bytes_fromhex_raises)

lemma hex_fields_raises: "hex_fields d fs = Inl e \<Longrightarrow> e = ValueError NonHexadecimal"
  by (induction d fs rule: hex_fields.induct)
     (auto split: sum.splits dest: hex_int_raises)

lemma checked_raises: "checked error d fs = Inl e \<Longrightarrow> e = ValueError NonHexadecimal"
  by (auto simp: checked_def and_then_Inl_iff dest: hex_fields_raises)

lemma hex_int_not_AttributeError: "hex_int s \<noteq> Inl AttributeError"
  using hex_int_raises by fastforce

lemma checked_not_AttributeError: "checked error d fs \<noteq> Inl AttributeError"
  using checked_raises by fastforce

lemma Packet_checks_not_AttributeError: "Packet_checks p \<noteq> Inl AttributeError"
  unfolding Packet_checks_def Let_def
  by (simp add: and_then_Inl_iff hex_int_not_AttributeError checked_not_AttributeError)

lemma Packet_print_not_AttributeError: "Packet_print p \<noteq> Inl AttributeError"
  by (simp add: Packet_print_def and_then_Inl_iff Packet_checks_not_AttributeError)

lemma Packet_from_payload_not_AttributeError: "Packet_from_payload pl \<noteq> Inl AttributeError"
  by (simp add: Packet_from_payload_def and_then_Inl_iff Let_def decode_ascii_def
                Packet_print_not_AttributeError hex_int_not_AttributeError)

lemma decode_not_AttributeError:
  "and_then (Frame_from_bytes fd) Frame_get_packet \<noteq> Inl AttributeError"
  by (simp add: and_then_Inl_iff Frame_from_bytes_def Frame_validate_def Let_def
                Frame_get_packet_def Packet_from_payload_not_AttributeError)

section \<open>The frame scanner\<close>

text \<open>
  The body of the loop once a start marker is found at \<open>n\<close> and, in the bytes \<open>d\<close> from
  there on, an end marker at \<open>m\<close>.
\<close>

lemma find_frames_body_unfold:
  assumes "n = py_find data [0x02]" and "0 \<le> n" and "d = drop (nat n) data"
    and "m = py_find d [0x03, 0xFF]" and "0 \<le> m"
  shows "find_frames_body cfg clk data w =
     (case and_then (Frame_from_bytes (take (nat m + 2) d)) Frame_get_packet of
        Inl (ValueError error) \<Rightarrow> (w, after_frame (drop (nat m + 2) d))
      | Inl AttributeError \<Rightarrow> (w, Raise AttributeError)
      | Inr p \<Rightarrow>
          if HANDLE w \<noteq> None \<and> \<not> MONITOR w then
            (case CP_respond cfg clk p (CB_MANAGER w) of
               Inl e \<Rightarrow> (w, Raise e)
             | Inr cb \<Rightarrow>
                 (case drain_outbox (w\<lparr>CB_MANAGER := cb\<rparr>) of
                    (w', Some e) \<Rightarrow> (w', Raise e)
                  | (w', None) \<Rightarrow> (w', after_frame (drop (nat m + 2) d))))
          else (w, after_frame (drop (nat m + 2) d)))"
proof -
  have d: "(if n > 0 then py_slice_from n data else data) = d"
    using assms(2,3) by (cases "n = 0") (simp_all add: py_slice_from_nonneg)
  have t: "py_slice_to (m + 2) d = take (nat m + 2) d"
    using assms(5) by (simp add: py_slice_to_nonneg nat_add_distrib)
  have r: "py_slice_from (m + 2) d = drop (nat m + 2) d"
    using assms(5) by (simp add: py_slice_from_nonneg nat_add_distrib)
  show ?thesis
    unfolding find_frames_body_def Let_def assms(1) [symmetric] d assms(4) [symmetric] t r
    using assms(2,5) by simp
qed

text \<open>A frame whose decoding raises \<open>ValueError\<close> is passed over: the world stays as it is.\<close>

lemma find_frames_skip:
  assumes "n = py_find data [0x02]" and "0 \<le> n" and "d = drop (nat n) data"
    and "m = py_find d [0x03, 0xFF]" and "0 \<le> m"
    and "and_then (Frame_from_bytes (take (nat m + 2) d)) Frame_get_packet = Inl (ValueError r)"
  shows "find_frames cfg clk data w =
           (if drop (nat m + 2) d = [] then (w, Inr [])
            else find_frames cfg clk (drop (nat m + 2) d) w)"
proof -
  have "find_frames_body cfg clk data w = (w, after_frame (drop (nat m + 2) d))"
    using find_frames_body_unfold [OF assms(1-5)] assms(6) by simp
  then show ?thesis
    by (subst find_frames.simps) (simp add: after_frame_def)
qed

lemma body_without_dispatch:
  assumes "HANDLE w = None \<or> MONITOR w"
  shows "\<exists>r. find_frames_body cfg clk data w = (w, r) \<and> (\<forall>e. r \<noteq> Raise e)"
proof -
  define n where "n = py_find data [0x02]"
  define d where "d = drop (nat n) data"
  define m where "m = py_find d [0x03, 0xFF]"
  show ?thesis
  proof (cases "0 \<le> n \<and> 0 \<le> m")
    case True
    then have n: "0 \<le> n" and m: "0 \<le> m" by simp_all
    note body = find_frames_body_unfold [OF n_def n d_def m_def m, of cfg clk w]
    show ?thesis
    proof (cases "and_then (Frame_from_bytes (take (nat m + 2) d)) Frame_get_packet")
      case (Inl e)
      with decode_not_AttributeError [of "take (nat m + 2) d"] obtain r where "e = ValueError r"
        by (cases e) auto
      with Inl body show ?thesis by (simp add: after_frame_def)
    next
      case (Inr p)
      with body assms show ?thesis by (auto simp: after_frame_def)
    qed
  next
    case False
    have dd: "0 \<le> n \<Longrightarrow> (if n > 0 then py_slice_from n data else data) = d"
      by (cases "n = 0") (simp_all add: py_slice_from_nonneg d_def)
    from False show ?thesis
      unfolding find_frames_body_def Let_def n_def [symmetric]
      by (cases "n < 0") (simp_all add: dd m_def [symmetric])
  qed
qed

lemma find_frames_without_dispatch:
  "HANDLE w = None \<or> MONITOR w \<Longrightarrow> \<exists>remaining. find_frames cfg clk data w = (w, Inr remaining)"
proof (induction cfg clk data w rule: find_frames.induct)
  case (1 cfg clk data w)
  from body_without_dispatch [OF "1.prems", of cfg clk data]
  obtain r where r: "find_frames_body cfg clk data w = (w, r)" and nr: "\<forall>e. r \<noteq> Raise e"
    by blast
  show ?case
  proof (cases r)
    case (Return x)
    with r show ?thesis by (subst find_frames.simps) simp
  next
    case (Raise e)
    with nr show ?thesis by simp
  next
    case (Continue rest)
    from "1.IH" [OF r [symmetric] Continue "1.prems"]
    obtain remaining where "find_frames cfg clk rest w = (w, Inr remaining)" by blast
    with r Continue show ?thesis by (subst find_frames.simps) simp
  qed
qed

lemma py_find_at:
  "0 \<le> py_find xs sub \<Longrightarrow> take (length sub) (drop (nat (py_find xs sub)) xs) = sub"
proof (induction xs)
  case Nil
  then show ?case by (simp split: if_splits)
next
  case (Cons x xs)
  show ?case
  proof (cases "take (length sub) (x # xs) = sub")
    case True
    then show ?thesis by simp
  next
    case False
    with Cons.prems have r: "0 \<le> py_find xs sub" by (simp add: Let_def split: if_splits)
    then have "nat (py_find xs sub + 1) = Suc (nat (py_find xs sub))" by simp
    with Cons.IH [OF r] False r show ?thesis by (simp add: Let_def)
  qed
qed

text \<open>One pass of the scanner, for every buffer and every world.\<close>

lemma find_frames_pass:
  assumes n: "n = py_find data [0x02]"
    and d: "d = drop (nat n) data"
    and m: "m = py_find d [0x03, 0xFF]"
    and fd: "frame_data = take (nat m + 2) d"
    and rest: "rest = drop (nat m + 2) d"
  shows "find_frames cfg clk data w =
     (let continue = (\<lambda>w'. if rest = [] then (w', Inr []) else find_frames cfg clk rest w') in
      if n < 0 then (w, Inr [])
      else if m < 0 then (w, Inr d)
      else case and_then (Frame_from_bytes frame_data) Frame_get_packet of
             Inl e \<Rightarrow> continue w
           | Inr p \<Rightarrow>
               if HANDLE w \<noteq> None \<and> \<not> MONITOR w then
                 (case CP_respond cfg clk p (CB_MANAGER w) of
                    Inl e \<Rightarrow> (w, Inl e)
                  | Inr cb \<Rightarrow>
                      (case drain_outbox (w\<lparr>CB_MANAGER := cb\<rparr>) of
                         (w', Some e) \<Rightarrow> (w', Inl e)
                       | (w', None) \<Rightarrow> continue w'))
               else continue w)"
proof (cases "n < 0")
  case True
  then have "find_frames_body cfg clk data w = (w, Return [])"
    unfolding find_frames_body_def Let_def n [symmetric] by simp
  with True show ?thesis by (subst find_frames.simps) (simp add: Let_def)
next
  case n0: False
  then have n': "0 \<le> n" by simp
  have dd: "(if n > 0 then py_slice_from n data else data) = d"
    using n' by (cases "n = 0") (simp_all add: py_slice_from_nonneg d)
  show ?thesis
  proof (cases "m < 0")
    case True
    then have "find_frames_body cfg clk data w = (w, Return d)"
      unfolding find_frames_body_def Let_def n [symmetric] dd m [symmetric] using n0 by simp
    with True n0 show ?thesis by (subst find_frames.simps) (simp add: Let_def)
  next
    case m0: False
    then have m': "0 \<le> m" by simp
    note body = find_frames_body_unfold [OF n n' d m m', of cfg clk w]
    show ?thesis
    proof (cases "and_then (Frame_from_bytes frame_data) Frame_get_packet")
      case (Inl e)
      with decode_not_AttributeError [of frame_data] obtain r where e: "e = ValueError r"
        by (cases e) auto
      from Inl e body have "find_frames_body cfg clk data w = (w, after_frame rest)"
        by (simp add: fd rest)
      with Inl n0 m0 show ?thesis
        by (subst find_frames.simps) (simp add: Let_def after_frame_def)
    next
      case (Inr p)
      show ?thesis
      proof (cases "HANDLE w \<noteq> None \<and> \<not> MONITOR w")
        case False
        with Inr body have "find_frames_body cfg clk data w = (w, after_frame rest)"
          by (auto simp: fd rest)
        with Inr n0 m0 False show ?thesis
          by (subst find_frames.simps) (auto simp: Let_def after_frame_def)
      next
        case True
        show ?thesis
        proof (cases "CP_respond cfg clk p (CB_MANAGER w)")
          case (Inl e)
          with Inr body True have "find_frames_body cfg clk data w = (w, Raise e)"
            by (simp add: fd rest)
          with Inl Inr n0 m0 True show ?thesis
            by (subst find_frames.simps) (simp add: Let_def)
        next
          case cb: (Inr cb)
          obtain w' r where dr: "drain_outbox (w\<lparr>CB_MANAGER := cb\<rparr>) = (w', r)"
            by (cases "drain_outbox (w\<lparr>CB_MANAGER := cb\<rparr>)")
          show ?thesis
          proof (cases r)
            case None
            with Inr body True cb dr
            have "find_frames_body cfg clk data w = (w', after_frame rest)"
              by (simp add: fd rest)
            with None Inr cb dr n0 m0 True show ?thesis
              by (subst find_frames.simps) (simp add: Let_def after_frame_def)
          next
            case (Some e)
            with Inr body True cb dr
            have "find_frames_body cfg clk data w = (w', Raise e)"
              by (simp add: fd rest)
            with Some Inr cb dr n0 m0 True show ?thesis
              by (subst find_frames.simps) (simp add: Let_def)
          qed
        qed
      qed
    qed
  qed
qed


text \<open>
  The bytes found: the closed frame starts with the start marker and ends with the end
  marker, and what follows it is shorter than the buffer.
\<close>

lemma closed_frame_shape:
  fixes data :: bytes
  assumes n: "n = py_find data [0x02]" and n0: "0 \<le> n"
    and d: "d = drop (nat n) data"
    and m: "m = py_find d [0x03, 0xFF]" and m0: "0 \<le> m"
    and fd: "frame_data = take (nat m + 2) d"
    and rest: "rest = drop (nat m + 2) d"
  shows "d = frame_data @ rest" and "take 1 frame_data = [0x02]"
    and "drop (nat m) frame_data = [0x03, 0xFF]" and "length rest < length data"
proof -
  show "d = frame_data @ rest" by (simp add: fd rest)
  have "take 1 d = [0x02]"
    using py_find_at [of data "[0x02]"] n0 by (simp add: n d)
  then show "take 1 frame_data = [0x02]" by (simp add: fd)
  have "take 2 (drop (nat m) d) = [0x03, 0xFF]"
    using py_find_at [of d "[0x03, 0xFF]"] m0 by (simp add: m numeral_2_eq_2)
  then show "drop (nat m) frame_data = [0x03, 0xFF]" by (simp add: fd drop_take)
  have "nat m + 2 \<le> length d" using py_find_bound [of d "[0x03, 0xFF]"] m0 by (simp add: m)
  then have "length rest < length d" by (simp add: rest)
  moreover have "length d \<le> length data" by (simp add: d)
  ultimately show "length rest < length data" by simp
qed

text \<open>
  What the scanner returns is the end of the buffer, and it is empty or an unclosed frame:
  it starts with the start marker and holds no end marker.
\<close>

lemma find_frames_returns_unclosed:
  "find_frames cfg clk data w = (w', Inr remaining) \<Longrightarrow>
     (\<exists>consumed. data = consumed @ remaining)
     \<and> (remaining = [] \<or> take 1 remaining = [0x02] \<and> py_find remaining [0x03, 0xFF] < 0)"
proof (induction "length data" arbitrary: data w rule: less_induct)
  case less
  define n where "n = py_find data [0x02]"
  define d where "d = drop (nat n) data"
  define m where "m = py_find d [0x03, 0xFF]"
  define frame_data where "frame_data = take (nat m + 2) d"
  define rest where "rest = drop (nat m + 2) d"
  note pass = find_frames_pass [OF n_def d_def m_def frame_data_def rest_def, of cfg clk w]
  show ?case
  proof (cases "n < 0")
    case True
    with pass less.prems show ?thesis by (simp add: Let_def)
  next
    case n0: False
    have dsplit: "data = take (nat n) data @ d" by (simp add: d_def)
    show ?thesis
    proof (cases "m < 0")
      case True
      with pass n0 less.prems have r: "remaining = d" by (simp add: Let_def)
      have "take 1 d = [0x02]"
        using py_find_at [of data "[0x02]"] n0 by (simp add: n_def d_def)
      with True r dsplit show ?thesis unfolding m_def by blast
    next
      case m0: False
      from n0 m0 have n': "0 \<le> n" and m': "0 \<le> m" by simp_all
      note shape = closed_frame_shape [OF n_def n' d_def m_def m' frame_data_def rest_def]
      from pass n0 m0 less.prems
      have "(rest = [] \<and> remaining = [])
            \<or> (\<exists>w''. find_frames cfg clk rest w'' = (w', Inr remaining))"
        by (auto simp: Let_def split: sum.splits if_splits prod.splits option.splits)
      then show ?thesis
      proof
        assume "rest = [] \<and> remaining = []"
        then show ?thesis by simp
      next
        assume "\<exists>w''. find_frames cfg clk rest w'' = (w', Inr remaining)"
        then obtain w'' where "find_frames cfg clk rest w'' = (w', Inr remaining)" by blast
        from less.hyps [OF shape(4) this]
        obtain c where c: "rest = c @ remaining"
          and sh: "remaining = [] \<or> take 1 remaining = [0x02] \<and> py_find remaining [0x03, 0xFF] < 0"
          by blast
        have "data = (take (nat n) data @ frame_data @ c) @ remaining"
          using dsplit shape(1) c by simp
        with sh show ?thesis by blast
      qed
    qed
  qed
qed

text \<open>
  Claim C3, as the code has it. For every buffer and every world, one pass of the scanner
  does this. Without a start marker it returns the empty buffer; with a start marker and
  no end marker after it, it returns the bytes from the start marker on. Otherwise the
  bytes from the start marker up to and including the end marker are the frame, and they
  are consumed whether or not decoding succeeds: a frame whose decoding raises is passed
  over with the world as it was; a frame that decodes is handed to \<open>respond\<close> and the
  outbox is drained when the serial port is open and the program does not only monitor,
  and is passed over otherwise; then the scanner goes on with the bytes after the end
  marker, returning the empty buffer when none remain. The scanner raises only what
  \<open>respond\<close> or the sending of a reply raises, so it never raises when it does not
  dispatch, and then the world is as before. Whatever it returns is the end of the buffer,
  and is empty or an unclosed frame: it starts with the start marker and holds no end
  marker.
\<close>

theorem scanner_consumes_closed_frames:
  assumes "n = py_find data [0x02]"
    and "d = drop (nat n) data"
    and "m = py_find d [0x03, 0xFF]"
    and "frame_data = take (nat m + 2) d"
    and "rest = drop (nat m + 2) d"
  shows "find_frames cfg clk data w =
     (let continue = (\<lambda>w'. if rest = [] then (w', Inr []) else find_frames cfg clk rest w') in
      if n < 0 then (w, Inr [])
      else if m < 0 then (w, Inr d)
      else case and_then (Frame_from_bytes frame_data) Frame_get_packet of
             Inl e \<Rightarrow> continue w
           | Inr p \<Rightarrow>
               if HANDLE w \<noteq> None \<and> \<not> MONITOR w then
                 (case CP_respond cfg clk p (CB_MANAGER w) of
                    Inl e \<Rightarrow> (w, Inl e)
                  | Inr cb \<Rightarrow>
                      (case drain_outbox (w\<lparr>CB_MANAGER := cb\<rparr>) of
                         (w', Some e) \<Rightarrow> (w', Inl e)
                       | (w', None) \<Rightarrow> continue w'))
               else continue w)
   \<and> (0 \<le> n \<and> 0 \<le> m \<longrightarrow>
        d = frame_data @ rest \<and> take 1 frame_data = [0x02]
        \<and> drop (nat m) frame_data = [0x03, 0xFF] \<and> length rest < length data)
   \<and> (HANDLE w = None \<or> MONITOR w \<longrightarrow>
        (\<exists>remaining. find_frames cfg clk data w = (w, Inr remaining)))
   \<and> (\<forall>w' remaining. find_frames cfg clk data w = (w', Inr remaining) \<longrightarrow>
        (\<exists>consumed. data = consumed @ remaining)
        \<and> (remaining = [] \<or> take 1 remaining = [0x02] \<and> py_find remaining [0x03, 0xFF] < 0))"
proof (intro conjI impI allI)
  show "find_frames cfg clk data w =
     (let continue = (\<lambda>w'. if rest = [] then (w', Inr []) else find_frames cfg clk rest w') in
      if n < 0 then (w, Inr [])
      else if m < 0 then (w, Inr d)
      else case and_then (Frame_from_bytes frame_data) Frame_get_packet of
             Inl e \<Rightarrow> continue w
           | Inr p \<Rightarrow>
               if HANDLE w \<noteq> None \<and> \<not> MONITOR w then
                 (case CP_respond cfg clk p (CB_MANAGER w) of
                    Inl e \<Rightarrow> (w, Inl e)
                  | Inr cb \<Rightarrow>
                      (case drain_outbox (w\<lparr>CB_MANAGER := cb\<rparr>) of
                         (w', Some e) \<Rightarrow> (w', Inl e)
                       | (w', None) \<Rightarrow> continue w'))
               else continue w)"
    by (rule find_frames_pass [OF assms])
next
  assume "0 \<le> n \<and> 0 \<le> m"
  then have n: "0 \<le> n" and m: "0 \<le> m" by simp_all
  note shape = closed_frame_shape [OF assms(1) n assms(2) assms(3) m assms(4) assms(5)]
  show "d = frame_data @ rest" by (rule shape(1))
  show "take 1 frame_data = [0x02]" by (rule shape(2))
  show "drop (nat m) frame_data = [0x03, 0xFF]" by (rule shape(3))
  show "length rest < length data" by (rule shape(4))
next
  assume "HANDLE w = None \<or> MONITOR w"
  then show "\<exists>remaining. find_frames cfg clk data w = (w, Inr remaining)"
    by (rule find_frames_without_dispatch)
next
  fix w' remaining
  assume r: "find_frames cfg clk data w = (w', Inr remaining)"
  from find_frames_returns_unclosed [OF r]
  show "\<exists>consumed. data = consumed @ remaining"
    and "remaining = [] \<or> take 1 remaining = [0x02] \<and> py_find remaining [0x03, 0xFF] < 0"
    by blast+
qed


text \<open>
  In \<open>noisy_buffer\<close> the start marker is at 2 and the end marker 13 bytes after it. The
  heartbeat frame fails its schema check and is passed over, also with the serial port
  open; in a replay the register frame, which decodes, is consumed as well, and the
  scanner returns the two bytes of the unclosed frame.
\<close>

theorem scanner_consumes_closed_frames_witness:
  "2 = py_find noisy_buffer [0x02]
   \<and> heartbeat_frame_with_data @ register_frame @ [0x02, 0x38] = drop (nat 2) noisy_buffer
   \<and> 13 = py_find (heartbeat_frame_with_data @ register_frame @ [0x02, 0x38]) [0x03, 0xFF]
   \<and> heartbeat_frame_with_data
       = take (nat 13 + 2) (heartbeat_frame_with_data @ register_frame @ [0x02, 0x38])
   \<and> register_frame @ [0x02, 0x38]
       = drop (nat 13 + 2) (heartbeat_frame_with_data @ register_frame @ [0x02, 0x38])
   \<and> and_then (Frame_from_bytes heartbeat_frame_with_data) Frame_get_packet
       = Inl (ValueError (InvalidMessage [InvalidMessageLength 2]))
   \<and> find_frames config_py (\<lambda>_. 0) noisy_buffer live_world
       = find_frames config_py (\<lambda>_. 0) (register_frame @ [0x02, 0x38]) live_world
   \<and> (\<exists>remaining. find_frames config_py (\<lambda>_. 0) noisy_buffer replay_world
                      = (replay_world, Inr remaining))
   \<and> find_frames config_py (\<lambda>_. 0) noisy_buffer replay_world = (replay_world, Inr [0x02, 0x38])"
proof -
  have h1: "2 = py_find noisy_buffer [0x02]" by code_simp
  have h2: "heartbeat_frame_with_data @ register_frame @ [0x02, 0x38] = drop (nat 2) noisy_buffer"
    by code_simp
  have h3: "13 = py_find (heartbeat_frame_with_data @ register_frame @ [0x02, 0x38]) [0x03, 0xFF]"
    by code_simp
  have h4: "heartbeat_frame_with_data
              = take (nat 13 + 2) (heartbeat_frame_with_data @ register_frame @ [0x02, 0x38])"
    by code_simp
  have h5: "register_frame @ [0x02, 0x38]
              = drop (nat 13 + 2) (heartbeat_frame_with_data @ register_frame @ [0x02, 0x38])"
    by code_simp
  have h6: "and_then (Frame_from_bytes heartbeat_frame_with_data) Frame_get_packet
              = Inl (ValueError (InvalidMessage [InvalidMessageLength 2]))"
    by code_simp
  have h0: "HANDLE replay_world = None" by (simp add: replay_world_def)
  note live = scanner_consumes_closed_frames [OF h1 h2 h3 h4 h5, of config_py "\<lambda>_. 0" live_world]
  note replay = scanner_consumes_closed_frames [OF h1 h2 h3 h4 h5, of config_py "\<lambda>_. 0" replay_world]
  have a: "find_frames config_py (\<lambda>_. 0) noisy_buffer live_world
             = find_frames config_py (\<lambda>_. 0) (register_frame @ [0x02, 0x38]) live_world"
    by (subst live [THEN conjunct1]) (simp add: Let_def h6)
  have b: "\<exists>remaining. find_frames config_py (\<lambda>_. 0) noisy_buffer replay_world
                         = (replay_world, Inr remaining)"
    using replay [THEN conjunct2, THEN conjunct2, THEN conjunct1] h0 by blast
  have c: "find_frames config_py (\<lambda>_. 0) noisy_buffer replay_world
             = (replay_world, Inr [0x02, 0x38])"
    by code_simp
  from h1 h2 h3 h4 h5 h6 a b c show ?thesis by blast
qed


text \<open>
  The claim as stated fails when the scanner dispatches: the try statement catches what
  decoding raises, not what \<open>respond\<close> and \<open>send\<close> raise in its else branch. The frame
  \<open>register_broadcast_frame\<close> decodes (to the broadcast address a register message is a
  response, of 11 characters); \<open>respond\<close> answers it to its source 0x80, the ChargePoint's
  own address; encoding that answer for sending checks it as a register request, which
  has 15 characters, and raises \<open>ValueError\<close>, which leaves \<open>find_frames\<close>.
\<close>

theorem scanner_raises_counterexample:
  "snd (find_frames config_py (\<lambda>_. 0) register_broadcast_frame live_world)
     = Inl (ValueError (InvalidMessage [InvalidMessageLength 11]))"
  by code_simp

text \<open>
  Claim C2, as the code has it. When the frame between the start marker and the end marker
  is a valid envelope but the packet in it fails the schema check of the packet decoder
  (a length that the opcode does not allow, a state that is none, a response to a command
  that has none), decoding raises \<open>ValueError\<close>, and the scanner passes the frame over as
  it does a malformed one: \<open>respond\<close> is not called, and actor, outbox and serial port are
  as before when the scanner goes on with the remaining bytes.
\<close>

theorem schema_error_not_dispatched:
  assumes "n = py_find data [0x02]" and "0 \<le> n" and "d = drop (nat n) data"
    and "m = py_find d [0x03, 0xFF]" and "0 \<le> m"
    and "Frame_from_bytes (take (nat m + 2) d) = Inr f"
    and "Packet_from_payload (payload f) = Inl (ValueError (InvalidMessage errors))"
  shows "find_frames cfg clk data w =
           (if drop (nat m + 2) d = [] then (w, Inr [])
            else find_frames cfg clk (drop (nat m + 2) d) w)"
proof -
  have "and_then (Frame_from_bytes (take (nat m + 2) d)) Frame_get_packet
          = Inl (ValueError (InvalidMessage errors))"
    using assms(6,7) by (simp add: and_then_simps Frame_get_packet_def)
  then show ?thesis by (rule find_frames_skip [OF assms(1-5)])
qed

text \<open>A length that the opcode does not allow makes the packet decoder raise.\<close>

lemma Packet_print_raises_schema_errors:
  "Packet_checks p = Inr errors \<Longrightarrow> errors \<noteq> [] \<Longrightarrow>
     Packet_print p = Inl (ValueError (InvalidMessage errors))"
  by (simp add: Packet_print_def and_then_simps)

theorem schema_error_not_dispatched_witness:
  "0 = py_find heartbeat_frame_with_data [0x02]
   \<and> 13 = py_find heartbeat_frame_with_data [0x03, 0xFF]
   \<and> Frame_from_bytes (take (nat 13 + 2) heartbeat_frame_with_data)
       = Inr \<lparr>payload = map byte_of_char ''80012100''\<rparr>
   \<and> Packet_from_payload (map byte_of_char ''80012100'')
       = Inl (ValueError (InvalidMessage [InvalidMessageLength 2]))
   \<and> find_frames config_py (\<lambda>_. 0) heartbeat_frame_with_data live_world = (live_world, Inr [])"
proof -
  have h1: "0 = py_find heartbeat_frame_with_data [0x02]" by code_simp
  have h3: "heartbeat_frame_with_data = drop (nat 0) heartbeat_frame_with_data" by simp
  have h4: "13 = py_find heartbeat_frame_with_data [0x03, 0xFF]" by code_simp
  have h6: "Frame_from_bytes (take (nat 13 + 2) heartbeat_frame_with_data)
              = Inr \<lparr>payload = map byte_of_char ''80012100''\<rparr>"
    by code_simp
  have h7: "Packet_from_payload (payload \<lparr>payload = map byte_of_char ''80012100''\<rparr>)
              = Inl (ValueError (InvalidMessage [InvalidMessageLength 2]))"
    by code_simp
  have e: "drop (nat 13 + 2) heartbeat_frame_with_data = []" by code_simp
  from schema_error_not_dispatched [OF h1 _ h3 h4 _ h6 h7, of config_py "\<lambda>_. 0" live_world]
  have "find_frames config_py (\<lambda>_. 0) heartbeat_frame_with_data live_world = (live_world, Inr [])"
    by (simp only: e if_True) simp
  moreover from h7 have "Packet_from_payload (map byte_of_char ''80012100'')
       = Inl (ValueError (InvalidMessage [InvalidMessageLength 2]))"
    by simp
  ultimately show ?thesis using h1 h4 h6 by blast
qed

text \<open>
  The claim as stated fails: the heartbeat request with two characters of data has a valid
  envelope, the packet decoder raises on its length, and the scanner, with the serial port
  open, returns with the world as it was. Nothing was written to the port, although
  \<open>respond\<close> answers this packet when it is handed to it, and the drain that follows
  \<open>respond\<close> would have sent that answer and the restart request waiting in the outbox.
\<close>

theorem schema_error_counterexample:
  "Frame_from_bytes heartbeat_frame_with_data = Inr \<lparr>payload = map byte_of_char ''80012100''\<rparr>
   \<and> Packet_from_payload (map byte_of_char ''80012100'')
       = Inl (ValueError (InvalidMessage [InvalidMessageLength 2]))
   \<and> find_frames config_py (\<lambda>_. 0) heartbeat_frame_with_data live_world = (live_world, Inr [])
   \<and> HANDLE live_world = Some []
   \<and> CP_respond config_py (\<lambda>_. 0) \<lparr>dst = 0x80, src = 0x01, cmd = 0x21, dat = ''00''\<rparr>
         (CB_MANAGER live_world)
       = Inr ((CB_MANAGER live_world)
               \<lparr>clock_reads := 3,
                outbox := [\<lparr>dst = 0x01, src = 0x80, cmd = 0x21, dat = []\<rparr>,
                           \<lparr>dst = 0xBC, src = 0x80, cmd = 0x1E, dat = []\<rparr>]\<rparr>)"
  by code_simp

section \<open>The order in which the outbox is sent\<close>

text \<open>
  The drain sends the outbox from its right end: the packets leave in the order in which
  \<open>_send\<close> put them in at the left.
\<close>

lemma drain_outbox_order:
  assumes "HANDLE w = Some written"
    and "list_all2 (\<lambda>p f. wire_bytes p = Inr f) (rev (outbox (CB_MANAGER w))) fs"
  shows "drain_outbox w =
           (w\<lparr>CB_MANAGER := (CB_MANAGER w)\<lparr>outbox := []\<rparr>, HANDLE := Some (written @ fs)\<rparr>, None)"
  using assms
proof (induction fs arbitrary: w written)
  case Nil
  then have "outbox (CB_MANAGER w) = []" by simp
  with Nil.prems(1) show ?case
    by (subst drain_outbox.simps) simp
next
  case (Cons f fs)
  from Cons.prems(2) obtain p ps where rv: "rev (outbox (CB_MANAGER w)) = p # ps"
    and p: "wire_bytes p = Inr f"
    and ps: "list_all2 (\<lambda>p f. wire_bytes p = Inr f) ps fs"
    by (auto simp: list_all2_Cons2)
  from rv have ob: "outbox (CB_MANAGER w) = rev ps @ [p]"
    by (metis rev_rev_ident rev.simps(2))
  define w2 where "w2 = w\<lparr>CB_MANAGER := (CB_MANAGER w)\<lparr>outbox := rev ps\<rparr>,
                           HANDLE := Some (written @ [f])\<rparr>"
  have step: "drain_outbox w = drain_outbox w2"
    using ob p Cons.prems(1)
    by (subst drain_outbox.simps) (simp add: send_def and_then_simps w2_def Let_def)
  have "drain_outbox w2 =
          (w2\<lparr>CB_MANAGER := (CB_MANAGER w2)\<lparr>outbox := []\<rparr>,
              HANDLE := Some ((written @ [f]) @ fs)\<rparr>, None)"
    by (rule Cons.IH) (simp_all add: w2_def ps)
  with step show ?case by (simp add: w2_def)
qed

lemma Packet_checks_6A:
  "cmd p = 0x6A \<Longrightarrow> Packet_checks p =
     and_then (hex_int (py_slice 0 4 (dat p))) (\<lambda>foo.
       if dst p = ADDR_CP then checked (length_ne (length (dat p)) 4) (dat p) [(0, 2)]
       else checked (length_ne (length (dat p)) 4) (dat p) [(0, 4)])"
  by (simp add: Packet_checks_def Let_def del: py_slice_numeral)

lemma Packet_checks_6B:
  "cmd p = 0x6B \<Longrightarrow> Packet_checks p =
     and_then (hex_int (py_slice 0 4 (dat p))) (\<lambda>foo.
       if src p = ADDR_CP then
         checked (length_ne (length (dat p)) 18) (dat p) [(2, 6), (6, 10), (10, 14), (14, 18)]
       else Inr (length_ne (length (dat p)) 0))"
  by (simp add: Packet_checks_def Let_def del: py_slice_numeral)

lemma Packet_print_ack:
  "Packet_print \<lparr>dst = d, src = ADDR_CP, cmd = 0x6A, dat = ''AA00''\<rparr> = Inr ()"
proof -
  have 1: "hex_int (py_slice 0 4 ''AA00'') = Inr 0xAA00" by code_simp
  have 2: "checked (length_ne (length ''AA00'') 4) ''AA00'' [(0, 2)] = Inr []" by code_simp
  have 3: "checked (length_ne (length ''AA00'') 4) ''AA00'' [(0, 4)] = Inr []" by code_simp
  have "Packet_checks \<lparr>dst = d, src = ADDR_CP, cmd = 0x6A, dat = ''AA00''\<rparr> = Inr []"
    by (subst Packet_checks_6A) (simp_all only: packet.select_convs 1 2 3 and_then_simps if_cancel)
  then show ?thesis by (simp add: Packet_print_def and_then_simps)
qed

lemma Packet_print_current_limit:
  assumes "limits = ''01003C003C003C003C'' \<or> limits = ''01003C00A000A000A0''"
  shows "Packet_print \<lparr>dst = d, src = ADDR_CP, cmd = 0x6B, dat = limits\<rparr> = Inr ()"
proof -
  have 1: "hex_int (py_slice 0 4 ''01003C003C003C003C'') = Inr 0x0100"
    "hex_int (py_slice 0 4 ''01003C00A000A000A0'') = Inr 0x0100" by code_simp+
  have 2: "checked (length_ne (length ''01003C003C003C003C'') 18) ''01003C003C003C003C''
             [(2, 6), (6, 10), (10, 14), (14, 18)] = Inr []"
    "checked (length_ne (length ''01003C00A000A000A0'') 18) ''01003C00A000A000A0''
             [(2, 6), (6, 10), (10, 14), (14, 18)] = Inr []" by code_simp+
  have "Packet_checks \<lparr>dst = d, src = ADDR_CP, cmd = 0x6B, dat = limits\<rparr> = Inr []"
    using assms
    by (subst Packet_checks_6B)
       (auto simp only: packet.select_convs 1 2 and_then_simps if_True simp_thms)
  then show ?thesis by (simp add: Packet_print_def and_then_simps)
qed

text \<open>
  One call of \<open>respond\<close> puts at most two packets into the outbox, and two only for a
  charging-state request of state \<open>A7\<close> or \<open>81\<close>.
\<close>

lemma respond_enqueues_at_most_two:
  assumes "CP_respond cfg clk message s = Inr s'"
  shows "outbox s' = outbox s \<or> (\<exists>p. outbox s' = p # outbox s)
         \<or> (cmd message = 0x6A
            \<and> (take 2 (dat message) = ''A7'' \<or> take 2 (dat message) = ''81'')
            \<and> (\<exists>p q. outbox s' = p # q # outbox s))"
proof -
  have send: "outbox (CP_send clk p c x) = p # outbox x" for p c x
    by (cases c) (simp_all add: CP_send_untracked CP_send_tracked)
  have ob: "outbox (CP_disable_response_check x) = outbox x" for x
    by (simp add: CP_disable_response_check_def)
  have ts: "outbox (snd (CP_timestamp clk x)) = outbox x" for x
    by (simp add: CP_timestamp_def datetime_now_def)
  show ?thesis
  proof (cases "dst message \<noteq> ADDR_BROADCAST \<and> dst message \<noteq> ADDR_CP")
    case True
    with assms show ?thesis by (simp add: CP_respond_def)
  next
    case False
    with assms show ?thesis
      unfolding CP_respond_def Let_def
      by (auto simp: send ob and_then_Inl_iff and_then_def CP_timestamp_def datetime_now_def
               split: if_splits sum.splits prod.splits)
  qed
qed

text \<open>What \<open>respond\<close> does with a charging-state request of state \<open>A7\<close> or \<open>81\<close>.\<close>

lemma CP_respond_current_limit:
  assumes "cmd message = 0x6A"
    and "dst message = ADDR_CP \<or> dst message = ADDR_BROADCAST"
    and "take 2 (dat message) = ''A7'' \<or> take 2 (dat message) = ''81''"
  shows "CP_respond cfg clk message s =
     Inr (s\<lparr>check_message_response := True,
             last_message := \<lparr>dst = src message, src = ADDR_CP, cmd = 0x6B,
                dat = (if take 2 (dat message) = ''A7'' then ''01003C003C003C003C''
                       else ''01003C00A000A000A0'')\<rparr>,
             clock_reads := clock_reads s + 2,
             last_message_timestamp := clk (clock_reads s + 1),
             outbox := [\<lparr>dst = src message, src = ADDR_CP, cmd = 0x6B,
                dat = (if take 2 (dat message) = ''A7'' then ''01003C003C003C003C''
                       else ''01003C00A000A000A0'')\<rparr>,
                \<lparr>dst = src message, src = ADDR_CP, cmd = 0x6A, dat = ''AA00''\<rparr>] @ outbox s\<rparr>)"
  using assms
  by (auto simp: CP_respond_def CP_send_untracked CP_send_tracked addr_distinct Let_def)



end
